theory Spec2Isabelle
  imports Complex_Main "HOL-Library.Sublist"
begin

chapter \<open>The vendor catalogue synchronisation engine\<close>

text \<open>
  A shallow embedding of the Python sources of the import engine: the category path
  splitter, the gallery URL derivation, the flat-category mapping, the identity resolver,
  the upsert with its supplier-link reconciliation and description overlay, the run loop
  and the statistics reconciler. Definitions come first, the verified properties after.
\<close>

section \<open>Strings as Python sees them\<close>

text \<open>
  A Python \<open>str\<close> is modelled as a \<open>string\<close> whose characters are the code points
  below 256. \<open>py_isspace\<close> is \<open>str.isspace\<close> on one such code point; \<open>strip\<close> is
  \<open>str.strip()\<close> with no argument.
\<close>

definition py_isspace :: "char \<Rightarrow> bool" where
  "py_isspace c =
     (let k = of_char c :: nat
      in (9 \<le> k \<and> k \<le> 13) \<or> (28 \<le> k \<and> k \<le> 32) \<or> k = 133 \<or> k = 160)"

definition strip :: "string \<Rightarrow> string" where
  "strip s = rev (dropWhile py_isspace (rev (dropWhile py_isspace s)))"

section \<open>Decimal numerals and ASCII case\<close>

text \<open>
  \<open>is_digit\<close> is the class \<open>\d\<close> on code points below 256, \<open>int_of_digits\<close> is \<open>int(num)\<close> on
  a string of such digits, \<open>show_nat\<close> is \<open>str(i)\<close> for \<open>i \<ge> 0\<close>, and \<open>ascii_lower\<close> is the
  case folding that \<open>re.I\<close> applies to the letters of the patterns below.
\<close>

definition is_digit :: "char \<Rightarrow> bool" where
  "is_digit c = (48 \<le> (of_char c :: nat) \<and> (of_char c :: nat) \<le> 57)"

definition digit_val :: "char \<Rightarrow> nat" where
  "digit_val c = of_char c - 48"

definition digit_char :: "nat \<Rightarrow> char" where
  "digit_char d = char_of (48 + d)"

definition int_of_digits :: "string \<Rightarrow> nat" where
  "int_of_digits ds = foldl (\<lambda>a c. 10 * a + digit_val c) 0 ds"

fun show_nat :: "nat \<Rightarrow> string" where
  "show_nat n = (if n < 10 then [digit_char n] else show_nat (n div 10) @ [digit_char (n mod 10)])"

declare show_nat.simps [simp del]

definition ascii_lower :: "char \<Rightarrow> char" where
  "ascii_lower c =
     (let k = of_char c :: nat in if 65 \<le> k \<and> k \<le> 90 then char_of (k + 32) else c)"

section \<open>Items and the host library\<close>

text \<open>
  A canonical item is a Python \<open>dict\<close> from field names to values; \<open>item k\<close> is
  \<open>item.get(k)\<close>, which is \<open>None\<close> for a missing key as for a stored \<open>None\<close>. The values
  the adapters produce are texts, whole numbers (\<open>int\<close>), finite floating-point numbers
  (\<open>float\<close>, by their value) and lists of texts. \<open>truthy\<close> is Python's truth test and
  \<open>por a b\<close> is \<open>a or b\<close> on the results of two \<open>get\<close> calls.
\<close>

datatype fval = Str string | Whole int | Num rat | Lst "string list"

type_synonym item = "string \<Rightarrow> fval option"

definition truthy :: "fval option \<Rightarrow> bool" where
  "truthy v =
     (case v of
        None \<Rightarrow> False
      | Some (Str s) \<Rightarrow> s \<noteq> []
      | Some (Whole n) \<Rightarrow> n \<noteq> 0
      | Some (Num x) \<Rightarrow> x \<noteq> 0
      | Some (Lst xs) \<Rightarrow> xs \<noteq> [])"

definition por :: "fval option \<Rightarrow> fval option \<Rightarrow> fval option" where
  "por a b = (if truthy a then a else b)"

text \<open>
  \<open>float(n)\<close> of an \<open>int\<close>: the nearest number with 53 significant bits, ties to the even
  one; \<open>None\<close> is the \<open>OverflowError\<close> raised when that number reaches \<open>2 ^ 1024\<close>, that is,
  when it has more than 1024 bits. \<open>bitlen\<close> is \<open>int.bit_length\<close>.
\<close>

function bitlen :: "int \<Rightarrow> nat" where
  "bitlen n = (if n \<le> 0 then 0 else Suc (bitlen (n div 2)))"
  by pat_completeness auto
termination
  by (relation "measure nat") auto

declare bitlen.simps [simp del]

definition float_of_int :: "int \<Rightarrow> rat option" where
  "float_of_int n =
     (let a = \<bar>n\<bar>;
          k = bitlen a - 53;
          q = a div 2 ^ k;
          r = a mod 2 ^ k;
          q' = (if 2 * r > 2 ^ k \<or> (2 * r = 2 ^ k \<and> odd q) then q + 1 else q);
          m = q' * 2 ^ k
      in if bitlen m > 1024 then None else Some (of_int (sgn n * m)))"

text \<open>
  What the code takes from the Python standard library and cannot be written down over
  code points below 256 is a parameter: \<open>float_str\<close> is \<open>float(s)\<close> on a text (\<open>None\<close> when
  it raises), \<open>str_other\<close> is \<open>str(x)\<close> on a number or a list, \<open>strip_accents\<close> is the NFKD
  decomposition with the combining marks dropped, \<open>lower\<close> is \<open>str.lower\<close>,
  \<open>close_matches\<close> is \<open>difflib.get_close_matches(word, keys, n=1, cutoff=0.92)\<close>.
  \<open>as_html\<close> stands for the text-to-markup utility \<open>_as_html\<close>, which the specification
  treats as a contract: its result is \<open>False\<close> (here \<open>None\<close>) or a text.
  \<open>unbound_local_text v\<close> is the message of the \<open>UnboundLocalError\<close> for the local variable
  \<open>v\<close>, which differs between the versions of the interpreter.
\<close>

record pylib =
  float_str :: "string \<Rightarrow> rat option"
  str_other :: "fval \<Rightarrow> string"
  strip_accents :: "string \<Rightarrow> string"
  lower :: "string \<Rightarrow> string"
  close_matches :: "string \<Rightarrow> string list \<Rightarrow> string list"
  as_html :: "fval option \<Rightarrow> string option"
  unbound_local_text :: "string \<Rightarrow> string"

definition py_str :: "pylib \<Rightarrow> fval \<Rightarrow> string" where
  "py_str lib v = (case v of Str s \<Rightarrow> s | _ \<Rightarrow> str_other lib v)"

text \<open>The exceptions that the modelled code can raise.\<close>

datatype error =
    UserError string
  | AttributeError string
  | NameError
  | KeyError
  | UnboundLocalError string

text \<open>
  \<open>str(e)\<close> of an exception: the message of a \<open>UserError\<close>; for an \<open>AttributeError\<close> the
  model keeps the name of the type that lacks the method \<open>strip\<close>, for an
  \<open>UnboundLocalError\<close> the name of the variable.
\<close>

definition error_text :: "pylib \<Rightarrow> error \<Rightarrow> string" where
  "error_text lib err =
     (case err of
        UserError m \<Rightarrow> m
      | AttributeError ty \<Rightarrow> [CHR 0x27] @ ty @ [CHR 0x27] @ '' object has no attribute '' @ [CHR 0x27] @ ''strip'' @ [CHR 0x27]
      | NameError \<Rightarrow> ''name 'cat_map' is not defined''
      | KeyError \<Rightarrow> ''KeyError''
      | UnboundLocalError v \<Rightarrow> unbound_local_text lib v)"

text \<open>
  A library for running the model on the concrete inputs of the evaluations below. Its
  \<open>float\<close> reads the plain decimal numerals (digits, then optionally a dot and digits) and
  rejects every other text; it prints no number or list to a text; its texts are plain
  ASCII without accents; its approximate search knows one pair of words; \<open>_as_html\<close> is
  given no value but a missing one; the message of \<open>UnboundLocalError\<close> is that of the
  interpreter from version 3.11 on. On the inputs of the evaluations it answers as Python
  does (\<open>float\<close> of Python also reads a sign, an exponent, blanks around the numeral,
  underscores, \<open>inf\<close> and \<open>nan\<close>; none of those occurs there). The general statements hold
  for every library.
\<close>

definition dec_numeral :: "string \<Rightarrow> rat option" where
  "dec_numeral s =
     (let ip = takeWhile is_digit s; r = dropWhile is_digit s
      in if ip = [] then None
         else if r = [] then Some (of_nat (int_of_digits ip))
         else if hd r = CHR ''.'' \<and> tl r \<noteq> [] \<and> list_all is_digit (tl r)
              then Some (of_nat (int_of_digits ip) + of_nat (int_of_digits (tl r)) / 10 ^ length (tl r))
              else None)"

definition ascii_lib :: pylib where
  "ascii_lib =
     \<lparr> float_str = dec_numeral, str_other = (\<lambda>x. []), strip_accents = (\<lambda>s. s),
       lower = map ascii_lower,
       close_matches = (\<lambda>w ks. if w = ''impresoras laser'' \<and> ''impresora laser'' \<in> set ks
                                then [''impresora laser''] else []),
       as_html = (\<lambda>v. None),
       unbound_local_text = (\<lambda>v. ''cannot access local variable '' @ [CHR 0x27] @ v @ [CHR 0x27]
                                    @ '' where it is not associated with a value'') \<rparr>"
section \<open>Category path splitting: \<open>_smart_split_ecom_path\<close>\<close>

text \<open>
  \<open>flush buf parts\<close> is the pair of statements
  \<^verbatim>\<open>seg = ''.join(buf).strip(); if seg: parts.append(seg)\<close>, and \<open>paren_step\<close> the
  update of \<open>depth\<close> at the head of the loop body.
\<close>

definition flush :: "string \<Rightarrow> string list \<Rightarrow> string list" where
  "flush buf parts = (let seg = strip buf in if seg \<noteq> [] then parts @ [seg] else parts)"

definition paren_step :: "nat \<Rightarrow> char \<Rightarrow> nat" where
  "paren_step depth ch =
     (if ch = CHR ''('' then depth + 1
      else if ch = CHR '')'' \<and> depth > 0 then depth - 1
      else depth)"

text \<open>The \<open>while i < n\<close> loop, with the loop variables \<open>i\<close>, \<open>depth\<close>, \<open>buf\<close>, \<open>parts\<close>.\<close>

function split_loop :: "string \<Rightarrow> nat \<Rightarrow> nat \<Rightarrow> string \<Rightarrow> string list \<Rightarrow> string list" where
  "split_loop s i depth buf parts =
     (if i < length s then
        (let ch = s ! i; depth' = paren_step depth ch
         in if depth' = 0 \<and> i + 2 < length s \<and> s ! i = CHR '' ''
               \<and> s ! (i + 1) = CHR ''/'' \<and> s ! (i + 2) = CHR '' ''
            then split_loop s (i + 3) depth' [] (flush buf parts)
            else if depth' = 0 \<and> ch = CHR ''>'' \<and> i > 0 \<and> s ! (i - 1) = CHR '' ''
                    \<and> (i + 1 = length s \<or> s ! (i + 1) = CHR '' '')
            then split_loop s (i + 1) depth' [] (flush buf parts)
            else split_loop s (i + 1) depth' (buf @ [ch]) parts)
      else flush buf parts)"
  by pat_completeness auto
termination
  by (relation "measure (\<lambda>(s, i, depth, buf, parts). length s - i)") auto

declare split_loop.simps [simp del]

definition smart_split_ecom_path :: "string \<Rightarrow> string list" where
  "smart_split_ecom_path s =
     (let parts = split_loop s 0 0 [] [] in if parts \<noteq> [] then parts else [strip s])"

subsection \<open>The splitter in the words of its specification\<close>

text \<open>
  The parenthesis depth in front of position \<open>i\<close>; the two separator tokens as the code
  accepts them (\<open>" / "\<close>, and \<open>" >"\<close> followed by a blank or by the end of the text);
  the pieces between the top-level separators met from left to right; and the result:
  the trimmed non-empty pieces, or the trimmed text when there is none.
\<close>

definition depth_before :: "string \<Rightarrow> nat \<Rightarrow> nat" where
  "depth_before s i = foldl paren_step 0 (take i s)"

definition slash_sep_at :: "string \<Rightarrow> nat \<Rightarrow> bool" where
  "slash_sep_at s i = (take 3 (drop i s) = '' / '')"

definition gt_sep_at :: "string \<Rightarrow> nat \<Rightarrow> bool" where
  "gt_sep_at s i = (0 < i \<and> take 2 (drop (i - 1) s) = '' >'' \<and>
      (drop (i + 1) s = [] \<or> take 1 (drop (i + 1) s) = '' ''))"

function pieces :: "string \<Rightarrow> nat \<Rightarrow> nat \<Rightarrow> string list" where
  "pieces s b i =
     (if length s \<le> i then [drop b s]
      else if depth_before s i = 0 \<and> slash_sep_at s i
        then take (i - b) (drop b s) # pieces s (i + 3) (i + 3)
      else if depth_before s i = 0 \<and> gt_sep_at s i
        then take (i - b) (drop b s) # pieces s (i + 1) (i + 1)
      else pieces s b (i + 1))"
  by pat_completeness auto
termination
  by (relation "measure (\<lambda>(s, b, i). length s - i)") auto

declare pieces.simps [simp del]

definition spec_split :: "string \<Rightarrow> string list" where
  "spec_split s =
     (let segs = filter (\<lambda>x. x \<noteq> []) (map strip (pieces s 0 0))
      in if segs = [] then [strip s] else segs)"

definition top_sep_at :: "string \<Rightarrow> nat \<Rightarrow> bool" where
  "top_sep_at s i = (depth_before s i = 0 \<and> (slash_sep_at s i \<or> gt_sep_at s i))"

definition has_top_sep :: "string \<Rightarrow> bool" where
  "has_top_sep s = list_ex (top_sep_at s) [0..<length s]"

text \<open>
  The separators as the specification names them: the three-character tokens \<open>" / "\<close>
  and \<open>" > "\<close> at depth zero.
\<close>

definition claimed_sep_at :: "string \<Rightarrow> nat \<Rightarrow> bool" where
  "claimed_sep_at s i =
     (depth_before s i = 0 \<and> (take 3 (drop i s) = '' / '' \<or> take 3 (drop i s) = '' > ''))"

definition has_claimed_sep :: "string \<Rightarrow> bool" where
  "has_claimed_sep s = list_ex (claimed_sep_at s) [0..<length s]"

section \<open>Gallery URL derivation: \<open>_derive_numbered_urls\<close>\<close>

text \<open>
  The pattern
  \<^verbatim>\<open>^(?P<base>.+?)(?P<sep>[-_])?(?P<num>\d{1,2})?\.(?P<ext>jpg|jpeg|png|webp)$\<close>
  with \<open>re.I\<close>, read as the backtracking matcher reads it. \<open>match_ext\<close> is
  \<^verbatim>\<open>\.(jpg|jpeg|png|webp)$\<close> on the rest of the text (\<open>$\<close> also matches in front of a final
  line feed); \<open>num_opts\<close> are the choices of the greedy optional group \<open>num\<close> in the
  order they are tried (two digits, one digit, absent), \<open>sep_opts\<close> those of \<open>sep\<close> (present,
  absent); \<open>regex_match\<close> tries the lazy \<open>base\<close> from its shortest length (one character,
  none of them a line feed) upwards and returns the first match.
\<close>

definition image_exts :: "string list" where
  "image_exts = [''jpg'', ''jpeg'', ''png'', ''webp'']"

definition match_ext :: "string \<Rightarrow> string option" where
  "match_ext r =
     (case r of
        [] \<Rightarrow> None
      | c # e \<Rightarrow>
          if c \<noteq> CHR ''.'' then None
          else if map ascii_lower e \<in> set image_exts then Some e
          else if e \<noteq> [] \<and> last e = CHR 0x0A \<and> map ascii_lower (butlast e) \<in> set image_exts
            then Some (butlast e)
          else None)"

definition num_opts :: "string \<Rightarrow> (string option \<times> string) list" where
  "num_opts r =
     (if 2 \<le> length r \<and> is_digit (r ! 0) \<and> is_digit (r ! 1) then [(Some (take 2 r), drop 2 r)] else [])
     @ (if 1 \<le> length r \<and> is_digit (r ! 0) then [(Some (take 1 r), drop 1 r)] else [])
     @ [(None, r)]"

definition sep_opts :: "string \<Rightarrow> (char option \<times> string) list" where
  "sep_opts r =
     (case r of
        [] \<Rightarrow> [(None, [])]
      | c # r' \<Rightarrow> if c = CHR ''-'' \<or> c = CHR ''_'' then [(Some c, r'), (None, r)] else [(None, r)])"

definition tail_matches :: "string \<Rightarrow> (char option \<times> string option \<times> string) list" where
  "tail_matches r =
     concat (map (\<lambda>(sep, r1).
       concat (map (\<lambda>(num, r2).
         (case match_ext r2 of None \<Rightarrow> [] | Some ext \<Rightarrow> [(sep, num, ext)]))
         (num_opts r1)))
       (sep_opts r))"

definition base_matches :: "string \<Rightarrow> nat \<Rightarrow> (string \<times> char option \<times> string option \<times> string) list" where
  "base_matches s k =
     (if CHR 0x0A \<in> set (take k s) then []
      else map (\<lambda>(sep, num, ext). (take k s, sep, num, ext)) (tail_matches (drop k s)))"

definition regex_match :: "string \<Rightarrow> (string \<times> char option \<times> string option \<times> string) option" where
  "regex_match s =
     (case concat (map (base_matches s) [1..<length s + 1]) of
        [] \<Rightarrow> None
      | m # _ \<Rightarrow> Some m)"

text \<open>
  \<open>rsplit_dot\<close> is \<^verbatim>\<open>murl.rsplit('.', 1)\<close> unpacked into two names: \<open>None\<close> when the text has
  no dot (the \<open>ValueError\<close> of the unpacking).
\<close>

definition rsplit_dot :: "string \<Rightarrow> (string \<times> string) option" where
  "rsplit_dot s =
     (if CHR ''.'' \<in> set s
      then Some (rev (drop 1 (dropWhile (\<lambda>c. c \<noteq> CHR ''.'') (rev s))),
                 rev (takeWhile (\<lambda>c. c \<noteq> CHR ''.'') (rev s)))
      else None)"

definition derive_numbered_urls :: "string \<Rightarrow> nat \<Rightarrow> string list" where
  "derive_numbered_urls main_url max_images =
     (if main_url = [] then []
      else
        let murl = strip main_url in
        case regex_match murl of
          None \<Rightarrow>
            (case rsplit_dot murl of
               None \<Rightarrow> []
             | Some (base, ext) \<Rightarrow>
                 map (\<lambda>i. base @ ''_'' @ show_nat i @ ''.'' @ ext) [2..<max_images + 1])
        | Some (base, sep0, num, ext) \<Rightarrow>
            let sep = (case sep0 of None \<Rightarrow> CHR ''_'' | Some c \<Rightarrow> c);
                start = (case num of
                           None \<Rightarrow> 2
                         | Some ds \<Rightarrow> if int_of_digits ds \<ge> 1 then int_of_digits ds + 1 else 2)
            in map (\<lambda>i. base @ [sep] @ show_nat i @ ''.'' @ ext) [start..<max_images + 1])"

text \<open>
  Steps 2 and 3 of the gallery overlay of \<open>_upsert_product\<close>: \<open>urls\<close> are the URLs that
  step 1 gathered from the explicit gallery fields of the item, \<open>image_url\<close> is the
  item's \<open>image_url\<close> (the empty text when absent). \<open>clean_step\<close> is the body of the loop
  over \<open>urls\<close>; the set \<open>seen\<close> always holds the elements of \<open>clean\<close>.
\<close>

definition clean_step :: "string \<Rightarrow> string list \<Rightarrow> string \<Rightarrow> string list" where
  "clean_step main clean u0 =
     (let u = strip u0 in if u = [] \<or> u = main \<or> u \<in> set clean then clean else clean @ [u])"

definition gallery_candidates :: "string list \<Rightarrow> string \<Rightarrow> string list" where
  "gallery_candidates urls0 image_url =
     (let main = strip image_url;
          urls = (if urls0 = [] \<and> main \<noteq> [] then derive_numbered_urls main 8 else urls0)
      in foldl (clean_step main) [] urls)"

text \<open>
  The sequence the specification describes: the numeric suffix \<open>num\<close> of the main URL
  incremented from just above its value up to the cap, between the same \<open>base\<close>, separator
  and extension.
\<close>

definition suffix_increments :: "string \<Rightarrow> char \<Rightarrow> string \<Rightarrow> string \<Rightarrow> nat \<Rightarrow> string list" where
  "suffix_increments base sep num ext cap =
     map (\<lambda>i. base @ [sep] @ show_nat i @ ''.'' @ ext) [int_of_digits num + 1..<cap + 1]"

section \<open>Flat-category mapping: the two \<open>get_items_mapped\<close>\<close>

text \<open>
  A category mapping is the \<open>dict\<close> that the loaders build from the mapping file: an
  association list in insertion order; \<open>map_of\<close> is the lookup and \<open>map fst\<close> the keys.
  An empty list is the mapping of a missing, unreadable or empty file.
\<close>

type_synonym catmap = "(string \<times> string) list"

text \<open>\<open>re.sub(r"\s+", " ", t)\<close>: every maximal run of white space becomes one blank.\<close>

function collapse_ws :: "string \<Rightarrow> string" where
  "collapse_ws [] = []"
| "collapse_ws (c # cs) =
     (if py_isspace c then CHR '' '' # collapse_ws (dropWhile py_isspace cs)
      else c # collapse_ws cs)"
  by pat_completeness auto
termination
  by (relation "measure length") (auto simp: length_dropWhile_le less_Suc_eq_le)

subsection \<open>The vendor adapter (\<open>infortisa_catalog.py\<close>, the last definitions of the module)\<close>

definition is_ascii_alnum :: "char \<Rightarrow> bool" where
  "is_ascii_alnum c =
     (let k = of_char c :: nat
      in (48 \<le> k \<and> k \<le> 57) \<or> (65 \<le> k \<and> k \<le> 90) \<or> (97 \<le> k \<and> k \<le> 122))"

text \<open>The body of the loop \<open>for ch in t.lower()\<close> of \<open>_mm_norm_key\<close>: what is appended to \<open>out\<close>.\<close>

definition mm_norm_char :: "char \<Rightarrow> string" where
  "mm_norm_char ch =
     (if ch = CHR ''&'' then '' y ''
      else if ch = CHR ''/'' then '' / ''
      else if (of_char ch :: nat) < 128 \<and> (is_ascii_alnum ch \<or> ch \<in> set '' -_()/'') then [ch]
      else if py_isspace ch then '' ''
      else [])"

definition mm_norm_key :: "pylib \<Rightarrow> fval \<Rightarrow> string" where
  "mm_norm_key lib s =
     (let t = map (\<lambda>c. if c = CHR 0xA0 then CHR '' '' else c) (py_str lib s);
          t = strip_accents lib t;
          t = concat (map mm_norm_char (lower lib t))
      in strip (collapse_ws t))"

text \<open>
  \<open>_mm_find_map\<close>. \<open>mapping[k]\<close> on a key that \<open>get_close_matches\<close> returned raises
  \<open>KeyError\<close> when it is no key of the mapping.
\<close>

definition mm_find_map :: "pylib \<Rightarrow> catmap \<Rightarrow> fval \<Rightarrow> error + string option" where
  "mm_find_map lib mapping src_text =
     (if mapping = [] then Inr None
      else
        let key = mm_norm_key lib src_text in
        case map_of mapping key of
          Some v \<Rightarrow> Inr (Some v)
        | None \<Rightarrow>
            (case find (\<lambda>k. prefix k key \<or> suffix k key \<or> prefix key k) (map fst mapping) of
               Some k \<Rightarrow> Inr (map_of mapping k)
             | None \<Rightarrow>
                 (case close_matches lib key (map fst mapping) of
                    [] \<Rightarrow> Inr None
                  | c # _ \<Rightarrow>
                      (case map_of mapping c of None \<Rightarrow> Inl KeyError | Some v \<Rightarrow> Inr (Some v)))))"

text \<open>\<open>src = it.get("category") or ""\<close>.\<close>

definition category_or_empty :: "item \<Rightarrow> fval" where
  "category_or_empty it = (case por (it ''category'') (Some (Str [])) of Some v \<Rightarrow> v | None \<Rightarrow> Str [])"

text \<open>The body of the loop over the items, and the loop: an exception ends the call.\<close>

definition mm_map_item :: "pylib \<Rightarrow> catmap \<Rightarrow> item \<Rightarrow> error + item" where
  "mm_map_item lib mapping it =
     (case mm_find_map lib mapping (category_or_empty it) of
        Inl e \<Rightarrow> Inl e
      | Inr None \<Rightarrow> Inr it
      | Inr (Some dst) \<Rightarrow>
          if dst \<noteq> [] then Inr (it(''category'' \<mapsto> Str dst, ''public_category'' \<mapsto> Str dst))
          else Inr it)"

fun mm_map_items :: "pylib \<Rightarrow> catmap \<Rightarrow> item list \<Rightarrow> error + item list" where
  "mm_map_items lib mapping [] = Inr []"
| "mm_map_items lib mapping (it # its) =
     (case mm_map_item lib mapping it of
        Inl e \<Rightarrow> Inl e
      | Inr it' \<Rightarrow>
          (case mm_map_items lib mapping its of Inl e \<Rightarrow> Inl e | Inr its' \<Rightarrow> Inr (it' # its')))"

text \<open>
  \<open>get_items_mapped\<close> of the adapter: \<open>items\<close> is what \<open>get_items\<close> returned and
  \<open>mapping\<close> what \<open>_mm_load_cat_map\<close> returned (empty when no path was given).
\<close>

definition infortisa_get_items_mapped :: "pylib \<Rightarrow> catmap \<Rightarrow> item list \<Rightarrow> error + item list" where
  "infortisa_get_items_mapped lib mapping items =
     (if mapping = [] then Inr items else mm_map_items lib mapping items)"

subsection \<open>The wrapper (\<open>catalog_map_wrapper.py\<close>)\<close>

definition wrapper_norm_key :: "pylib \<Rightarrow> fval \<Rightarrow> string" where
  "wrapper_norm_key lib s = collapse_ws (strip (lower lib (strip_accents lib (py_str lib s))))"

text \<open>
  The body of the second loop, inside \<open>try\<close>: \<open>new = cmap.get(_norm_key(orig))\<close>, and the
  category is rewritten when \<open>new\<close> is a non-empty text.
\<close>

definition wrapper_map_item :: "pylib \<Rightarrow> catmap \<Rightarrow> item \<Rightarrow> item" where
  "wrapper_map_item lib cmap it =
     (case map_of cmap (wrapper_norm_key lib (category_or_empty it)) of
        None \<Rightarrow> it
      | Some new \<Rightarrow> if new \<noteq> [] then it(''category'' \<mapsto> Str new) else it)"

text \<open>
  \<open>get_items_mapped\<close> of the wrapper: \<open>items\<close> is what the base \<open>get_items\<close> returned
  (the empty list when it raised) and \<open>cmap\<close> the mapping after the fallback to the
  default path. With an empty mapping the first loop reads the names \<open>cat_map\<close> and \<open>_norm\<close>,
  which the module never binds: its body raises \<open>NameError\<close> at the first item.
\<close>

definition wrapper_get_items_mapped :: "pylib \<Rightarrow> catmap \<Rightarrow> item list \<Rightarrow> error + item list" where
  "wrapper_get_items_mapped lib cmap items =
     (if cmap = [] then (if items = [] then Inr [] else Inl NameError)
      else Inr (map (wrapper_map_item lib cmap) items))"

text \<open>
  No hit, in the words of the specification: the table is empty, or the normalised text
  is no key, no key is a prefix or a suffix of it or has it as a prefix, and the
  approximate search returns nothing.
\<close>

definition no_hit :: "pylib \<Rightarrow> catmap \<Rightarrow> string \<Rightarrow> bool" where
  "no_hit lib mapping key =
     (mapping = [] \<or>
      (map_of mapping key = None
       \<and> \<not> list_ex (\<lambda>k. prefix k key \<or> suffix k key \<or> prefix key k) (map fst mapping)
       \<and> close_matches lib key (map fst mapping) = []))"

section \<open>The catalogue store\<close>

text \<open>
  The persistence engine is outside the repository; the model keeps what the code reads
  and writes. A table is the list of its records, and \<open>search\<close> returns the records that
  satisfy the domain in the order of the list (\<open>limit=1\<close> the first of them). A field
  that holds \<open>False\<close> is \<open>None\<close>. Of \<open>product.template\<close> the model keeps the identity fields,
  the name, the cost and the description fields; of \<open>product.product\<close> (the variants) the
  description fields; of \<open>product.supplierinfo\<close> the vendor, the template and the vendor's
  product code; of \<open>product.image\<close> the template, the sequence and the vendor tags.
\<close>

record template =
  t_id :: nat
  t_name :: "fval option"
  default_code :: "string option"
  barcode :: "string option"
  standard_price :: rat
  description_ecommerce :: "fval option"
  website_description :: "fval option"
  description :: "fval option"
  description_sale :: "fval option"
  website_short_description :: "fval option"

record variant =
  pv_id :: nat
  pv_tmpl :: nat
  pv_website_description :: "fval option"
  pv_description :: "fval option"
  pv_description_sale :: "fval option"
  pv_website_short_description :: "fval option"

record supplierinfo =
  si_id :: nat
  partner_id :: nat
  product_tmpl_id :: "nat option"
  product_code :: "string option"

record image =
  im_id :: nat
  im_tmpl :: nat
  im_name :: "fval option"
  im_sequence :: nat
  x_vendor_image :: bool
  x_vendor_image_url :: "string option"
  x_vendor_name :: string
  image_1920 :: string

record store =
  templates :: "template list"
  variants :: "variant list"
  supplierinfos :: "supplierinfo list"
  images :: "image list"

text \<open>\<open>tmpl0\<close> is a template with every field at its default value.\<close>

definition tmpl0 :: template where
  "tmpl0 = \<lparr> t_id = 0, t_name = None, default_code = None, barcode = None, standard_price = 0,
      description_ecommerce = None, website_description = None, description = None,
      description_sale = None, website_short_description = None \<rparr>"

text \<open>A new record gets an identifier above every identifier of its table.\<close>

definition fresh_id :: "nat list \<Rightarrow> nat" where
  "fresh_id ids = Suc (foldr max ids 0)"

text \<open>
  The configuration record \<open>vendor.catalog.config\<close>: the vendor partner (\<open>None\<close> when
  unset) with its \<open>display_name\<close>, and the selection \<open>map_by\<close>. The schema: the field names of \<open>product.template\<close>
  and of \<open>product.product\<close>, which the code asks for with \<open>in ProductT._fields\<close>. The
  network: \<open>has_requests\<close> says that the module \<open>requests\<close> could be imported, and
  \<open>download url\<close> is what \<open>_download_first_ok(url)\<close> then returns for a text, the content
  or \<open>None\<close>; \<open>fetch\<close> is \<open>_download_first_ok\<close>. The image fields of the persistence engine:
  \<open>image_write_fails c\<close> says that the assignment of the encoded content \<open>c\<close> to the main
  image of a template raises, and \<open>image_create_error c\<close> is the exception, if any, that the
  creation of a \<open>product.image\<close> with the content \<open>c\<close> raises.
\<close>

datatype map_by = Supplierinfo | Default_code | Barcode

record config =
  vendor_id :: "nat option"
  vendor_display_name :: string
  map_by :: map_by

record env =
  e_lib :: pylib
  pt_fields :: "string set"
  pp_fields :: "string set"
  download :: "string \<Rightarrow> string option"
  has_requests :: bool
  image_write_fails :: "string \<Rightarrow> bool"
  image_create_error :: "string \<Rightarrow> error option"

definition fetch :: "env \<Rightarrow> string \<Rightarrow> string option" where
  "fetch e url = (if has_requests e \<and> url \<noteq> [] then download e url else None)"

section \<open>Identity resolution: \<open>_find_template\<close>\<close>

text \<open>The result is the identifier of the template found, \<open>None\<close> for an empty recordset.\<close>

definition find_template :: "config \<Rightarrow> store \<Rightarrow> string \<Rightarrow> string \<Rightarrow> nat option" where
  "find_template cfg st sku bc =
     (let tmpl1 =
        (if map_by cfg = Supplierinfo \<and> sku \<noteq> [] then
           (let own =
              (case vendor_id cfg of
                 None \<Rightarrow> None
               | Some v \<Rightarrow>
                   (case find (\<lambda>si. partner_id si = v \<and> product_code si = Some sku) (supplierinfos st) of
                      None \<Rightarrow> None
                    | Some si \<Rightarrow> product_tmpl_id si))
            in if own = None
               then (case find (\<lambda>si. product_code si = Some sku) (supplierinfos st) of
                       None \<Rightarrow> None
                     | Some si_any \<Rightarrow> product_tmpl_id si_any)
               else own)
         else None);
          tmpl2 =
        (if tmpl1 = None \<and> sku \<noteq> []
         then map_option t_id (find (\<lambda>t. default_code t = Some sku) (templates st))
         else tmpl1);
          tmpl3 =
        (if tmpl2 = None \<and> bc \<noteq> []
         then map_option t_id (find (\<lambda>t. barcode t = Some bc) (templates st))
         else tmpl2)
      in tmpl3)"

subsection \<open>The resolution order in the words of the specification\<close>

definition by_vendor_link :: "config \<Rightarrow> store \<Rightarrow> string \<Rightarrow> nat option" where
  "by_vendor_link cfg st sku =
     (case vendor_id cfg of
        None \<Rightarrow> None
      | Some v \<Rightarrow>
          if sku = [] then None
          else Option.bind (find (\<lambda>si. partner_id si = v \<and> product_code si = Some sku) (supplierinfos st))
                 product_tmpl_id)"

definition by_any_link :: "store \<Rightarrow> string \<Rightarrow> nat option" where
  "by_any_link st sku =
     (if sku = [] then None
      else Option.bind (find (\<lambda>si. product_code si = Some sku) (supplierinfos st)) product_tmpl_id)"

definition by_default_code :: "store \<Rightarrow> string \<Rightarrow> nat option" where
  "by_default_code st sku =
     (if sku = [] then None
      else map_option t_id (find (\<lambda>t. default_code t = Some sku) (templates st)))"

definition by_barcode :: "store \<Rightarrow> string \<Rightarrow> nat option" where
  "by_barcode st bc =
     (if bc = [] then None
      else map_option t_id (find (\<lambda>t. barcode t = Some bc) (templates st)))"

fun first_match :: "nat option list \<Rightarrow> nat option" where
  "first_match [] = None"
| "first_match (None # ms) = first_match ms"
| "first_match (Some t # ms) = Some t"

text \<open>
  The order the specification gives for the priorities \<open>internal-reference\<close> and \<open>barcode\<close>:
  the corresponding exact match first, then the remaining keys in the order (a) to (d).
\<close>

definition claimed_resolution :: "config \<Rightarrow> store \<Rightarrow> string \<Rightarrow> string \<Rightarrow> nat option" where
  "claimed_resolution cfg st sku bc =
     (case map_by cfg of
        Supplierinfo \<Rightarrow>
          first_match [by_vendor_link cfg st sku, by_any_link st sku, by_default_code st sku, by_barcode st bc]
      | Default_code \<Rightarrow>
          first_match [by_default_code st sku, by_vendor_link cfg st sku, by_any_link st sku, by_barcode st bc]
      | Barcode \<Rightarrow>
          first_match [by_barcode st bc, by_vendor_link cfg st sku, by_any_link st sku, by_default_code st sku])"

section \<open>The upsert: \<open>_upsert_product\<close> and its overlays\<close>

subsection \<open>Reading the item\<close>

text \<open>
  \<open>or_empty_stripped v\<close> is \<open>(v or '').strip()\<close>: a number or a list has no \<open>strip\<close>.
  \<open>robust_float\<close> is \<open>_robust_float\<close>: \<open>float\<close> of a \<open>float\<close> is the number itself, of an
  \<open>int\<close> the nearest \<open>float\<close>; of a list it raises \<open>TypeError\<close>, of a text it may raise
  \<open>ValueError\<close>, of a large \<open>int\<close> \<open>OverflowError\<close>, and all three give \<open>0.0\<close>.
\<close>

definition or_empty_stripped :: "fval option \<Rightarrow> error + string" where
  "or_empty_stripped v =
     (case por v (Some (Str [])) of
        Some (Str s) \<Rightarrow> Inr (strip s)
      | Some (Whole n) \<Rightarrow> Inl (AttributeError ''int'')
      | Some (Num x) \<Rightarrow> Inl (AttributeError ''float'')
      | _ \<Rightarrow> Inl (AttributeError ''list''))"

definition item_sku :: "item \<Rightarrow> error + string" where
  "item_sku item = or_empty_stripped (por (item ''sku'') (item ''default_code''))"

definition item_barcode :: "item \<Rightarrow> error + string" where
  "item_barcode item = or_empty_stripped (item ''barcode'')"

definition robust_float :: "pylib \<Rightarrow> fval option \<Rightarrow> rat option" where
  "robust_float lib x =
     (case x of
        None \<Rightarrow> None
      | Some (Whole n) \<Rightarrow> (case float_of_int n of None \<Rightarrow> Some 0 | Some r \<Rightarrow> Some r)
      | Some (Num r) \<Rightarrow> Some r
      | Some (Str s) \<Rightarrow> (case float_str lib s of None \<Rightarrow> Some 0 | Some r \<Rightarrow> Some r)
      | Some (Lst xs) \<Rightarrow> Some 0)"

text \<open>\<open>cost = _robust_float(item.get("cost"))\<close>, and the price when that is \<open>None\<close>.\<close>

definition item_cost :: "pylib \<Rightarrow> item \<Rightarrow> rat option" where
  "item_cost lib item =
     (let cost = robust_float lib (item ''cost'')
      in if cost = None then robust_float lib (item ''price'') else cost)"

subsection \<open>The values written by the base method\<close>

text \<open>
  The dictionary \<open>vals\<close>: \<open>None\<close> is a key that was not set. The keys \<open>sale_ok\<close>,
  \<open>purchase_ok\<close>, the weight, the category, the vendor stock and the vendor name are
  written to fields that no property below reads; they are left out, as are the content
  of the main image, the publication flags and the call of \<open>vc_apply_gallery_urls\<close>, a
  method that no file of the repository defines and whose exception the code catches.
\<close>

record vals =
  v_name :: "fval option"
  v_description_ecommerce :: "fval option"
  v_standard_price :: "rat option"
  v_default_code :: "string option"
  v_barcode :: "string option"

definition base_vals :: "env \<Rightarrow> store \<Rightarrow> item \<Rightarrow> fval option \<Rightarrow> string \<Rightarrow> string \<Rightarrow> nat option \<Rightarrow> vals" where
  "base_vals e st item name sku bc tmpl =
     (let desc_html = item ''description_ecommerce'';
          d1 = (if truthy desc_html \<and> ''description_ecommerce'' \<in> pt_fields e then desc_html else None);
          cost = item_cost (e_lib e) item;
          existing = (if bc \<noteq> [] then find (\<lambda>t. barcode t = Some bc) (templates st) else None);
          barcode_to_set =
            (if bc \<noteq> [] \<and> (existing = None \<or> (tmpl \<noteq> None \<and> map_option t_id existing = tmpl))
             then Some bc else None);
          desc_html2 = por (item ''description_ecommerce'') (por (item ''website_description'')
                         (por (item ''description'') (item ''description_sale'')));
          d2 = (if truthy desc_html2 \<and> ''description_ecommerce'' \<in> pt_fields e then desc_html2 else d1)
      in \<lparr> v_name = name, v_description_ecommerce = d2, v_standard_price = cost,
           v_default_code = (if sku \<noteq> [] then Some sku else None),
           v_barcode = barcode_to_set \<rparr>)"

definition write_vals :: "vals \<Rightarrow> template \<Rightarrow> template" where
  "write_vals v t =
     t\<lparr> t_name := v_name v,
        description_ecommerce :=
          (case v_description_ecommerce v of None \<Rightarrow> description_ecommerce t | Some d \<Rightarrow> Some d),
        standard_price := (case v_standard_price v of None \<Rightarrow> standard_price t | Some c \<Rightarrow> c),
        default_code := (case v_default_code v of None \<Rightarrow> default_code t | Some c \<Rightarrow> Some c),
        barcode := (case v_barcode v of None \<Rightarrow> barcode t | Some b \<Rightarrow> Some b) \<rparr>"

text \<open>\<open>tmpl.write(vals)\<close> on the template with identifier \<open>tid\<close>.\<close>

definition write_template :: "nat \<Rightarrow> vals \<Rightarrow> store \<Rightarrow> store" where
  "write_template tid v st =
     st\<lparr> templates := map (\<lambda>t. if t_id t = tid then write_vals v t else t) (templates st) \<rparr>"

text \<open>\<open>ProductT.create(vals)\<close>: the new template, and its first variant as the ORM adds it.\<close>

definition create_template :: "vals \<Rightarrow> store \<Rightarrow> store \<times> nat" where
  "create_template v st =
     (let tid = fresh_id (map t_id (templates st));
          pv = \<lparr> pv_id = fresh_id (map pv_id (variants st)), pv_tmpl = tid,
                 pv_website_description = None, pv_description = None,
                 pv_description_sale = None, pv_website_short_description = None \<rparr>
      in (st\<lparr> templates := templates st @ [write_vals v (tmpl0\<lparr>t_id := tid\<rparr>)],
              variants := variants st @ [pv] \<rparr>, tid))"

subsection \<open>Supplier-link reconciliation\<close>

text \<open>
  The block under \<open>if self.vendor_id and sku\<close>: \<open>v\<close> is the vendor of the configuration,
  \<open>tid\<close> the template, \<open>sis\<close> the table \<open>product.supplierinfo\<close>. The informational stock
  written with \<open>si_vals\<close> is left out.
\<close>

definition si_vals :: "nat \<Rightarrow> nat \<Rightarrow> string \<Rightarrow> supplierinfo \<Rightarrow> supplierinfo" where
  "si_vals v tid sku si = si\<lparr> partner_id := v, product_tmpl_id := Some tid, product_code := Some sku \<rparr>"

definition reconcile_links :: "nat \<Rightarrow> nat \<Rightarrow> string \<Rightarrow> supplierinfo list \<Rightarrow> supplierinfo list" where
  "reconcile_links v tid sku sis =
     (let si_new = find (\<lambda>si. partner_id si = v \<and> product_tmpl_id si = Some tid) sis;
          si_others = filter (\<lambda>si. product_tmpl_id si = Some tid \<and> product_code si = Some sku
                                    \<and> partner_id si \<noteq> v) sis
      in case si_new of
           Some n \<Rightarrow>
             map (\<lambda>si. if si_id si = si_id n then si_vals v tid sku si else si)
               (filter (\<lambda>si. si_id si \<notin> set (map si_id si_others)) sis)
         | None \<Rightarrow>
             (case si_others of
                [] \<Rightarrow>
                  sis @ [\<lparr> si_id = fresh_id (map si_id sis), partner_id = v,
                           product_tmpl_id = Some tid, product_code = Some sku \<rparr>]
              | first # rest \<Rightarrow>
                  map (\<lambda>si. if si_id si = si_id first then si_vals v tid sku si else si)
                    (filter (\<lambda>si. si_id si \<notin> set (map si_id si_others) \<or> si_id si = si_id first)
                       (map (\<lambda>si. if si_id si = si_id first then si\<lparr>partner_id := v\<rparr> else si) sis))))"

subsection \<open>The base method\<close>

text \<open>
  \<open>write_or_create\<close> is \<open>if tmpl: tmpl.write(vals) else: tmpl = ProductT.create(vals)\<close> with
  the flag \<open>was_created\<close>; \<open>links_step\<close> is the block \<open>if self.vendor_id and sku\<close>;
  \<open>base_apply\<close> is the method from the lookup of the template on.
\<close>

definition write_or_create :: "nat option \<Rightarrow> vals \<Rightarrow> store \<Rightarrow> store \<times> nat \<times> bool" where
  "write_or_create tmpl v st =
     (case tmpl of
        Some t \<Rightarrow> (write_template t v st, t, False)
      | None \<Rightarrow> (fst (create_template v st), snd (create_template v st), True))"

definition links_step :: "config \<Rightarrow> nat \<Rightarrow> string \<Rightarrow> store \<Rightarrow> store" where
  "links_step cfg tid sku st =
     (case vendor_id cfg of
        None \<Rightarrow> st
      | Some vend \<Rightarrow>
          if sku \<noteq> [] then st\<lparr> supplierinfos := reconcile_links vend tid sku (supplierinfos st) \<rparr>
          else st)"

definition base_apply :: "env \<Rightarrow> config \<Rightarrow> store \<Rightarrow> item \<Rightarrow> fval option \<Rightarrow> string \<Rightarrow> string
    \<Rightarrow> store \<times> nat \<times> bool" where
  "base_apply e cfg st item name sku bc =
     (let tmpl = find_template cfg st sku bc;
          v = base_vals e st item name sku bc tmpl;
          r = write_or_create tmpl v st
      in (links_step cfg (fst (snd r)) sku (fst r), fst (snd r), snd (snd r)))"

text \<open>
  \<open>vendor_name_of\<close> is the vendor name written to \<open>x_vendor_name\<close>, a field that
  \<open>product_template.py\<close> of this module declares, so the test \<open>in ProductT._fields\<close> holds:
  \<open>(item.get('vendor_name') or (self.vendor_id and self.vendor_id.display_name) or '').strip()\<close>.
\<close>

definition vendor_name_of :: "config \<Rightarrow> item \<Rightarrow> error + string" where
  "vendor_name_of cfg item =
     or_empty_stripped
       (por (item ''vendor_name'')
          (if vendor_id cfg = None then None else Some (Str (vendor_display_name cfg))))"

text \<open>
  The main image. \<open>_looks_like_image\<close>: at least 12 bytes that start as a JPEG, a PNG or a
  RIFF file. The name \<open>_logger\<close> is assigned further down in \<open>_upsert_product\<close> and so is a
  local variable of it, unbound where the step logs: when the content is missing or looks
  like no image, and when the assignment to \<open>image_1920\<close> raises, the call raises
  \<open>UnboundLocalError\<close>. \<open>main_image_step\<close> is that exception, or \<open>None\<close>. A value of
  \<open>image_url\<close> that is no text makes every request fail, so the content is missing.
\<close>

definition looks_like_image :: "string \<Rightarrow> bool" where
  "looks_like_image b =
     (12 \<le> length b
      \<and> (prefix [CHR 0xFF, CHR 0xD8] b
         \<or> prefix [CHR 0x89, CHR ''P'', CHR ''N'', CHR ''G'', CHR 0x0D, CHR 0x0A, CHR 0x1A, CHR 0x0A] b
         \<or> prefix ''RIFF'' b))"

definition main_image_step :: "env \<Rightarrow> item \<Rightarrow> error option" where
  "main_image_step e item =
     (if truthy (item ''image_url'') \<and> has_requests e then
        (case (case item ''image_url'' of Some (Str u) \<Rightarrow> fetch e u | _ \<Rightarrow> None) of
           None \<Rightarrow> Some (UnboundLocalError ''_logger'')
         | Some content \<Rightarrow>
             if content \<noteq> [] \<and> looks_like_image content \<and> \<not> image_write_fails e content
             then None
             else Some (UnboundLocalError ''_logger''))
      else None)"

text \<open>
  The result is the store as the call leaves it, with the exception raised or the pair of
  the template and the flag \<open>was_created\<close>. The validation errors and the \<open>strip\<close> of a
  vendor name that is no text are raised before anything is written; the exception of the
  main image is raised after the record and the supplier link are written.
\<close>

definition base_upsert :: "env \<Rightarrow> config \<Rightarrow> store \<Rightarrow> item \<Rightarrow> store \<times> (error + nat \<times> bool)" where
  "base_upsert e cfg st item =
     (let name = por (item ''name'') (item ''title'') in
      case item_sku item of
        Inl err \<Rightarrow> (st, Inl err)
      | Inr sku \<Rightarrow>
     (case item_barcode item of
        Inl err \<Rightarrow> (st, Inl err)
      | Inr bc \<Rightarrow>
          if \<not> truthy name then (st, Inl (UserError ''Falta 'name' en el item''))
          else if sku = [] \<and> bc = [] then (st, Inl (UserError ''Falta SKU/default_code o barcode en el item''))
          else
            (case vendor_name_of cfg item of
               Inl err \<Rightarrow> (st, Inl err)
             | Inr vname \<Rightarrow>
                 let r = base_apply e cfg st item name sku bc
                 in (case main_image_step e item of
                       Some err \<Rightarrow> (fst r, Inl err)
                     | None \<Rightarrow> (fst r, Inr (snd r))))))"

subsection \<open>The description overlay (\<open>_brand_notes_patch.py\<close>)\<close>

text \<open>
  After \<open>super()\<close>: the template is looked up again; \<open>website_description\<close> is set to the
  item's payload, or to the markup of \<open>description\<close> or \<open>description_sale\<close>, or to
  \<open>False\<close>; the fields \<open>description\<close>, \<open>description_sale\<close> and \<open>website_short_description\<close> are
  set to \<open>False\<close>; each on the template and on its variants, where the schema has the
  field. The brand is written to a field that no property below reads and is left out.
\<close>

definition web_html :: "pylib \<Rightarrow> item \<Rightarrow> fval option" where
  "web_html lib item =
     (if truthy (item ''website_description'') then item ''website_description''
      else map_option Str (as_html lib (por (item ''description'') (item ''description_sale''))))"

definition or_false :: "fval option \<Rightarrow> fval option" where
  "or_false v = (if truthy v then v else None)"

definition brand_write_template :: "env \<Rightarrow> fval option \<Rightarrow> template \<Rightarrow> template" where
  "brand_write_template e w t =
     t\<lparr> website_description :=
          (if ''website_description'' \<in> pt_fields e then or_false w else website_description t),
        description := (if ''description'' \<in> pt_fields e then None else description t),
        description_sale := (if ''description_sale'' \<in> pt_fields e then None else description_sale t),
        website_short_description :=
          (if ''website_short_description'' \<in> pt_fields e then None else website_short_description t) \<rparr>"

definition brand_write_variant :: "env \<Rightarrow> fval option \<Rightarrow> variant \<Rightarrow> variant" where
  "brand_write_variant e w p =
     p\<lparr> pv_website_description :=
          (if ''website_description'' \<in> pp_fields e then or_false w else pv_website_description p),
        pv_description := (if ''description'' \<in> pp_fields e then None else pv_description p),
        pv_description_sale := (if ''description_sale'' \<in> pp_fields e then None else pv_description_sale p),
        pv_website_short_description :=
          (if ''website_short_description'' \<in> pp_fields e then None else pv_website_short_description p) \<rparr>"

definition brand_notes_overlay :: "env \<Rightarrow> config \<Rightarrow> item \<Rightarrow> store \<Rightarrow> error + store" where
  "brand_notes_overlay e cfg item st =
     (case item_sku item of
        Inl err \<Rightarrow> Inl err
      | Inr sku \<Rightarrow>
     (case item_barcode item of
        Inl err \<Rightarrow> Inl err
      | Inr bc \<Rightarrow>
     (case find_template cfg st sku bc of
        None \<Rightarrow> Inr st
      | Some tid \<Rightarrow>
          let w = web_html (e_lib e) item
          in Inr (st\<lparr> templates :=
                        map (\<lambda>t. if t_id t = tid then brand_write_template e w t else t) (templates st),
                      variants :=
                        map (\<lambda>p. if pv_tmpl p = tid then brand_write_variant e w p else p) (variants st) \<rparr>))))"

subsection \<open>The gallery overlay (\<open>_gallery_patch.py\<close>)\<close>

text \<open>
  \<open>_to_list_images\<close>: a list gives its non-empty elements trimmed; a text is cut at the
  characters \<open>|\<close>, line feed, \<open>;\<close> and \<open>,\<close> and gives its non-blank pieces trimmed (the
  pattern cuts at runs of these characters; the pieces between two neighbours of a run
  are empty and dropped either way).
\<close>

fun split_at :: "(char \<Rightarrow> bool) \<Rightarrow> string \<Rightarrow> string \<Rightarrow> string list" where
  "split_at P cur [] = [cur]"
| "split_at P cur (c # cs) = (if P c then cur # split_at P [] cs else split_at P (cur @ [c]) cs)"

definition to_list_images :: "pylib \<Rightarrow> fval option \<Rightarrow> string list" where
  "to_list_images lib v =
     (if \<not> truthy v then []
      else case v of
             Some (Lst xs) \<Rightarrow> map strip (filter (\<lambda>x. x \<noteq> []) xs)
           | Some w \<Rightarrow>
               map strip (filter (\<lambda>p. strip p \<noteq> [])
                 (split_at (\<lambda>c. c \<in> set [CHR ''|'', CHR 0x0A, CHR '';'', CHR '',''])
                    [] (py_str lib w)))
           | None \<Rightarrow> [])"

text \<open>Step 1: the explicit list fields, then the numbered fields for \<open>i\<close> from 2 to 20.\<close>

definition numbered_keys :: "nat \<Rightarrow> string list" where
  "numbered_keys i =
     [''image'' @ show_nat i, ''image_'' @ show_nat i, ''img'' @ show_nat i, ''img_'' @ show_nat i,
      ''imagen'' @ show_nat i, ''imagen_'' @ show_nat i, ''foto'' @ show_nat i, ''foto_'' @ show_nat i,
      ''image_url_'' @ show_nat i]"

definition explicit_urls :: "pylib \<Rightarrow> item \<Rightarrow> string list" where
  "explicit_urls lib item =
     concat (map (\<lambda>k. to_list_images lib (item k)) [''images'', ''extra_images'', ''gallery'', ''image_urls''])
     @ concat (map (\<lambda>k. case item k of
                          None \<Rightarrow> []
                        | Some v \<Rightarrow> if truthy (Some v) then [strip (py_str lib v)] else [])
                (concat (map numbered_keys [2..<21])))"

text \<open>
  Step 4: \<open>known_urls\<close> are the keys of \<open>existing_by_url\<close>, the non-empty origin URLs of
  the vendor images of the template, read once before the loop; \<open>gallery_loop\<close> is the
  loop over \<open>enumerate(clean, start=1)\<close>, which an exception of \<open>Image.create\<close> ends.
\<close>

definition known_urls :: "nat \<Rightarrow> image list \<Rightarrow> string list" where
  "known_urls tid ims =
     concat (map (\<lambda>im. case x_vendor_image_url im of
                         None \<Rightarrow> []
                       | Some u \<Rightarrow> if im_tmpl im = tid \<and> x_vendor_image im \<and> u \<noteq> [] then [u] else [])
               ims)"

fun gallery_loop :: "env \<Rightarrow> nat \<Rightarrow> fval option \<Rightarrow> nat \<Rightarrow> string \<Rightarrow> string list
    \<Rightarrow> image list \<Rightarrow> (nat \<times> string) list \<Rightarrow> image list \<times> error option" where
  "gallery_loop e tid name seq_base vname known ims [] = (ims, None)"
| "gallery_loop e tid name seq_base vname known ims ((idx, url) # ps) =
     (if url \<in> set known then gallery_loop e tid name seq_base vname known ims ps
      else case fetch e url of
             None \<Rightarrow> gallery_loop e tid name seq_base vname known ims ps
           | Some content \<Rightarrow>
               if content = [] then gallery_loop e tid name seq_base vname known ims ps
               else (case image_create_error e content of
                       Some err \<Rightarrow> (ims, Some err)
                     | None \<Rightarrow>
                         gallery_loop e tid name seq_base vname known
                           (ims @ [\<lparr> im_id = fresh_id (map im_id ims), im_tmpl = tid, im_name = name,
                                     im_sequence = seq_base + idx, x_vendor_image = True,
                                     x_vendor_image_url = Some url, x_vendor_name = vname,
                                     image_1920 = content \<rparr>]) ps))"

text \<open>
  The overlay after \<open>super()\<close>: the store as it leaves it, and the exception if it raises.
  The images created before an exception stay in the store.
\<close>

definition gallery_overlay :: "env \<Rightarrow> config \<Rightarrow> item \<Rightarrow> store \<Rightarrow> store \<times> error option" where
  "gallery_overlay e cfg item st =
     (case item_sku item of
        Inl err \<Rightarrow> (st, Some err)
      | Inr sku \<Rightarrow>
     (case item_barcode item of
        Inl err \<Rightarrow> (st, Some err)
      | Inr bc \<Rightarrow>
     (case find_template cfg st sku bc of
        None \<Rightarrow> (st, None)
      | Some tid \<Rightarrow>
     (case or_empty_stripped (item ''image_url'') of
        Inl err \<Rightarrow> (st, Some err)
      | Inr main \<Rightarrow>
          let clean = gallery_candidates (explicit_urls (e_lib e) item) main in
          if clean = [] then (st, None)
          else
            let known = known_urls tid (images st)
            in (case vendor_name_of cfg item of
                  Inl err \<Rightarrow> (st, Some err)
                | Inr vn \<Rightarrow>
                    let vname = (if vn \<noteq> [] then vn else ''Proveedor'');
                        seq_base = foldr max (map im_sequence (filter (\<lambda>im. im_tmpl im = tid) (images st))) 0 + 10;
                        name = por (Option.bind (find (\<lambda>t. t_id t = tid) (templates st)) t_name)
                                 (por (Some (Str sku)) (Some (Str bc)));
                        r = gallery_loop e tid name seq_base vname known (images st)
                              (zip [1..<length clean + 1] clean)
                    in (st\<lparr> images := fst r \<rparr>, snd r))))))"

subsection \<open>The whole method\<close>

text \<open>
  The overlays call \<open>super()\<close> first and then write to tables of their own, so a call that
  returns leaves the same store in whatever order the module loads them; the order is
  not in the repository and the model takes base, description, gallery. The overlay of
  \<open>_ecom_public_category_patch.py\<close> writes only the public categories and is left out.
  The result is the store as the call leaves it, with the exception or the pair of the
  template and the flag \<open>was_created\<close>.
\<close>

definition upsert_product :: "env \<Rightarrow> config \<Rightarrow> store \<Rightarrow> item \<Rightarrow> store \<times> (error + nat \<times> bool)" where
  "upsert_product e cfg st item =
     (case base_upsert e cfg st item of
        (st1, Inl err) \<Rightarrow> (st1, Inl err)
      | (st1, Inr (tid, was_created)) \<Rightarrow>
          (case brand_notes_overlay e cfg item st1 of
             Inl err \<Rightarrow> (st1, Inl err)
           | Inr st2 \<Rightarrow>
               (case gallery_overlay e cfg item st2 of
                  (st3, Some err) \<Rightarrow> (st3, Inl err)
                | (st3, None) \<Rightarrow> (st3, Inr (tid, was_created)))))"

section \<open>Supplier links in the words of the specification\<close>

text \<open>
  The links that a vendor owns on a record, the links of a record with a given vendor
  code, and the "other" links of the reconciliation step: same record, same code, another
  vendor. \<open>link_inv\<close> says that the identifiers are pairwise different and that every
  (record, vendor) pair and every (record, code) pair has at most one link;
  \<open>per_vendor_unique\<close> and \<open>per_code_unique\<close> say the same of two links at a time.
\<close>

definition owned_links :: "nat \<Rightarrow> nat \<Rightarrow> supplierinfo list \<Rightarrow> supplierinfo list" where
  "owned_links v t sis = filter (\<lambda>si. partner_id si = v \<and> product_tmpl_id si = Some t) sis"

definition code_links :: "nat \<Rightarrow> string \<Rightarrow> supplierinfo list \<Rightarrow> supplierinfo list" where
  "code_links t c sis = filter (\<lambda>si. product_tmpl_id si = Some t \<and> product_code si = Some c) sis"

definition other_links :: "nat \<Rightarrow> nat \<Rightarrow> string \<Rightarrow> supplierinfo list \<Rightarrow> supplierinfo list" where
  "other_links v t c sis =
     filter (\<lambda>si. product_tmpl_id si = Some t \<and> product_code si = Some c \<and> partner_id si \<noteq> v) sis"

definition link_inv :: "supplierinfo list \<Rightarrow> bool" where
  "link_inv sis =
     (distinct (map si_id sis) \<and>
      list_all (\<lambda>a. case product_tmpl_id a of
                      None \<Rightarrow> True
                    | Some t \<Rightarrow>
                        length (owned_links (partner_id a) t sis) \<le> 1 \<and>
                        (case product_code a of
                           None \<Rightarrow> True
                         | Some c \<Rightarrow> length (code_links t c sis) \<le> 1)) sis)"

definition per_vendor_unique :: "supplierinfo list \<Rightarrow> bool" where
  "per_vendor_unique sis =
     (\<forall>a\<in>set sis. \<forall>b\<in>set sis.
        partner_id a = partner_id b \<and> product_tmpl_id a = product_tmpl_id b
          \<and> product_tmpl_id a \<noteq> None \<longrightarrow> a = b)"

definition per_code_unique :: "supplierinfo list \<Rightarrow> bool" where
  "per_code_unique sis =
     (\<forall>a\<in>set sis. \<forall>b\<in>set sis.
        product_tmpl_id a = product_tmpl_id b \<and> product_tmpl_id a \<noteq> None
          \<and> product_code a = product_code b \<and> product_code a \<noteq> None \<longrightarrow> a = b)"

section \<open>Running the upsert twice\<close>



section \<open>The run: \<open>action_run_import\<close>\<close>

subsection \<open>The base method\<close>

text \<open>
  The counters and the detail lines of the loop. \<open>error_line\<close> is the detail line of a
  failed item: \<open>f"ERROR {code}: {e}"\<close> with the first non-empty of \<open>sku\<close>, \<open>default_code\<close>,
  \<open>barcode\<close>, or \<open>N/A\<close>. \<open>import_step\<close> is the body of the loop (the commit every
  \<open>batch_commit\<close> items changes nothing here), \<open>import_loop\<close> the loop.
\<close>

record run_counts =
  n_created :: nat
  n_updated :: nat
  n_skipped :: nat
  details :: "string list"

definition error_line :: "pylib \<Rightarrow> item \<Rightarrow> error \<Rightarrow> string" where
  "error_line lib raw err =
     (let code = (case por (raw ''sku'') (por (raw ''default_code'') (por (raw ''barcode'') (Some (Str ''N/A'')))) of
                    Some c \<Rightarrow> c
                  | None \<Rightarrow> Str ''N/A'')
      in ''ERROR '' @ py_str lib code @ '': '' @ error_text lib err)"

definition import_step :: "env \<Rightarrow> config \<Rightarrow> store \<times> run_counts \<Rightarrow> item \<Rightarrow> store \<times> run_counts" where
  "import_step e cfg sc raw =
     (case upsert_product e cfg (fst sc) raw of
        (st', Inr (tid, was_created)) \<Rightarrow>
          (st', if was_created then (snd sc)\<lparr> n_created := n_created (snd sc) + 1 \<rparr>
                else (snd sc)\<lparr> n_updated := n_updated (snd sc) + 1 \<rparr>)
      | (st', Inl err) \<Rightarrow>
          (st', (snd sc)\<lparr> n_skipped := n_skipped (snd sc) + 1,
                         details := details (snd sc) @ [error_line (e_lib e) raw err] \<rparr>))"

definition import_loop :: "env \<Rightarrow> config \<Rightarrow> store \<Rightarrow> item list \<Rightarrow> store \<times> run_counts" where
  "import_loop e cfg st items =
     foldl (import_step e cfg) (st, \<lparr> n_created = 0, n_updated = 0, n_skipped = 0, details = [] \<rparr>) items"

text \<open>The summary line, and \<open>"\n".join\<close>.\<close>

definition msg_line :: "nat \<Rightarrow> nat \<Rightarrow> nat \<Rightarrow> nat \<Rightarrow> string" where
  "msg_line tot created updated skipped =
     ''Total: '' @ show_nat tot @ '' | Creados: '' @ show_nat created
       @ '' | Actualizados: '' @ show_nat updated @ '' | Fallidos: '' @ show_nat skipped"

fun join_lines :: "string list \<Rightarrow> string" where
  "join_lines [] = []"
| "join_lines [l] = l"
| "join_lines (l # ls) = l @ [CHR 0x0A] @ join_lines ls"

definition result_text :: "string \<Rightarrow> string list \<Rightarrow> string" where
  "result_text line ds = (if ds = [] then line else join_lines (line # take 200 ds))"

text \<open>
  The method from the fetched \<open>items\<close> on: the store after the run and the text written
  to \<open>last_result\<close>. The checks of the configuration and the fetch come before the loop and
  end the run when they fail; the log record and the notification repeat the counters.
\<close>

definition base_action_run_import :: "env \<Rightarrow> config \<Rightarrow> store \<Rightarrow> item list \<Rightarrow> store \<times> string" where
  "base_action_run_import e cfg st items =
     (let r = import_loop e cfg st items;
          c = snd r
      in (fst r, result_text (msg_line (length items) (n_created c) (n_updated c) (n_skipped c))
                   (details c)))"

text \<open>
  The outcome of every item of a run, each at the store that the items before it left:
  the run in the words of the specification.
\<close>

fun outcomes :: "env \<Rightarrow> config \<Rightarrow> store \<Rightarrow> item list \<Rightarrow> (item \<times> (error + nat \<times> bool)) list" where
  "outcomes e cfg st [] = []"
| "outcomes e cfg st (raw # rest) =
     (raw, snd (upsert_product e cfg st raw)) # outcomes e cfg (fst (upsert_product e cfg st raw)) rest"

definition failures :: "(item \<times> (error + nat \<times> bool)) list \<Rightarrow> (item \<times> error) list" where
  "failures os = concat (map (\<lambda>(raw, r). case r of Inl err \<Rightarrow> [(raw, err)] | Inr x \<Rightarrow> []) os)"

text \<open>The number of items of a run that were created (\<open>True\<close>) or updated (\<open>False\<close>).\<close>

definition successes :: "bool \<Rightarrow> (item \<times> (error + nat \<times> bool)) list \<Rightarrow> nat" where
  "successes flag os =
     length (filter (\<lambda>(raw, r). case r of Inl err \<Rightarrow> False | Inr (tid, was_created) \<Rightarrow> was_created = flag) os)"

subsection \<open>The statistics overlay (\<open>_import_stats_patch.py\<close>)\<close>

text \<open>
  \<open>_key_of\<close>, the list \<open>keys\<close> of the distinct non-empty keys of the feed, the template
  field that \<open>map_by\<close> selects (\<open>barcode\<close> for \<open>barcode\<close>, \<open>default_code\<close> otherwise), and
  the snapshot \<open>set(PT.search([(pt_field, 'in', keys)]).mapped(pt_field))\<close>.
\<close>

definition key_of :: "config \<Rightarrow> item \<Rightarrow> fval option" where
  "key_of cfg it =
     (if map_by cfg = Barcode
      then por (it ''barcode'') (por (it ''sku'') (por (it ''vendor_code'') (it ''default_code'')))
      else por (it ''sku'') (por (it ''vendor_code'') (por (it ''default_code'') (it ''barcode''))))"

definition feed_keys :: "config \<Rightarrow> item list \<Rightarrow> fval list" where
  "feed_keys cfg items =
     foldl (\<lambda>keys it. case key_of cfg it of
                         None \<Rightarrow> keys
                       | Some k \<Rightarrow> if truthy (Some k) \<and> k \<notin> set keys then keys @ [k] else keys)
       [] items"

definition pt_field :: "config \<Rightarrow> template \<Rightarrow> string option" where
  "pt_field cfg t = (if map_by cfg = Barcode then barcode t else default_code t)"

definition snapshot :: "config \<Rightarrow> store \<Rightarrow> fval list \<Rightarrow> fval set" where
  "snapshot cfg st keys =
     (if keys = [] then {}
      else set (concat (map (\<lambda>t. case pt_field cfg t of
                                    None \<Rightarrow> []
                                  | Some s \<Rightarrow> if Str s \<in> set keys then [Str s] else [])
                         (templates st))))"

text \<open>
  \<open>str.splitlines\<close> on code points below 256, and \<open>rstrip("\n")\<close>.
\<close>

definition is_linebreak :: "char \<Rightarrow> bool" where
  "is_linebreak c = ((of_char c :: nat) \<in> {10, 11, 12, 13, 28, 29, 30, 133})"

fun splitlines_from :: "string \<Rightarrow> string \<Rightarrow> string list" where
  "splitlines_from cur [] = (if cur = [] then [] else [cur])"
| "splitlines_from cur [c] = (if is_linebreak c then [cur] else [cur @ [c]])"
| "splitlines_from cur (c # d # cs) =
     (if c = CHR 0x0D \<and> d = CHR 0x0A then cur # splitlines_from [] cs
      else if is_linebreak c then cur # splitlines_from [] (d # cs)
      else splitlines_from (cur @ [c]) (d # cs))"

definition splitlines :: "string \<Rightarrow> string list" where
  "splitlines s = splitlines_from [] s"

definition rstrip_nl :: "string \<Rightarrow> string" where
  "rstrip_nl s = rev (dropWhile (\<lambda>c. c = CHR 0x0A) (rev s))"

text \<open>
  The patterns, read as the matcher reads them. \<open>ci_eq\<close> is the equality of two code
  points below 256 under \<open>re.I\<close>; \<open>ci_prefix p s\<close> matches the literal \<open>p\<close> at the head of
  \<open>s\<close> and returns the rest; \<open>search f s\<close> tries \<open>f\<close> at every position from the left.
\<close>

definition latin1_lower :: "char \<Rightarrow> char" where
  "latin1_lower c =
     (let k = of_char c :: nat
      in if (65 \<le> k \<and> k \<le> 90) \<or> (192 \<le> k \<and> k \<le> 222 \<and> k \<noteq> 215) then char_of (k + 32) else c)"

definition ci_eq :: "char \<Rightarrow> char \<Rightarrow> bool" where
  "ci_eq a b = (latin1_lower a = latin1_lower b)"

fun ci_prefix :: "string \<Rightarrow> string \<Rightarrow> string option" where
  "ci_prefix [] s = Some s"
| "ci_prefix (p # ps) [] = None"
| "ci_prefix (p # ps) (c # cs) = (if ci_eq p c then ci_prefix ps cs else None)"

fun lit_prefix :: "string \<Rightarrow> string \<Rightarrow> string option" where
  "lit_prefix [] s = Some s"
| "lit_prefix (p # ps) [] = None"
| "lit_prefix (p # ps) (c # cs) = (if p = c then lit_prefix ps cs else None)"

definition search :: "(string \<Rightarrow> 'a option) \<Rightarrow> string \<Rightarrow> 'a option" where
  "search f s = (case concat (map (\<lambda>i. case f (drop i s) of None \<Rightarrow> [] | Some x \<Rightarrow> [x]) [0..<length s + 1]) of
                   [] \<Rightarrow> None
                 | x # _ \<Rightarrow> Some x)"

text \<open>\<open>pat_soft\<close>: the literal text, in any case.\<close>

definition pat_soft_at :: "string \<Rightarrow> unit option" where
  "pat_soft_at s =
     map_option (\<lambda>r. ()) (ci_prefix ''No se pudo descifrar este archivo como un archivo de imagen.'' s)"

text \<open>\<open>pat_skip\<close>: \<^verbatim>\<open>Galer\<close>\<open>i\<close>\<^verbatim>\<open>a\s+saltada\s+[A-Z0-9]+\<close> in any case, the \<open>i\<close> with an acute accent.\<close>

definition ws_plus :: "string \<Rightarrow> string option" where
  "ws_plus s = (if s \<noteq> [] \<and> py_isspace (hd s) then Some (dropWhile py_isspace s) else None)"

definition pat_skip_at :: "string \<Rightarrow> unit option" where
  "pat_skip_at s =
     (case ci_prefix (''Galer'' @ [CHR 0xED] @ ''a'') s of
        None \<Rightarrow> None
      | Some r1 \<Rightarrow>
     (case ws_plus r1 of
        None \<Rightarrow> None
      | Some r2 \<Rightarrow>
     (case ci_prefix ''saltada'' r2 of
        None \<Rightarrow> None
      | Some r3 \<Rightarrow>
     (case ws_plus r3 of
        None \<Rightarrow> None
      | Some r4 \<Rightarrow> if r4 \<noteq> [] \<and> is_ascii_alnum (hd r4) then Some () else None))))"

definition contains :: "string \<Rightarrow> string \<Rightarrow> bool" where
  "contains sub s = (search (\<lambda>r. map_option (\<lambda>x. ()) (lit_prefix sub r)) s \<noteq> None)"

definition is_soft_line :: "string \<Rightarrow> bool" where
  "is_soft_line line = (contains ''ERROR '' line \<and> search pat_soft_at line \<noteq> None)"

definition is_skip_line :: "string \<Rightarrow> bool" where
  "is_skip_line line = (search pat_skip_at line \<noteq> None)"

text \<open>
  The pattern of the summary line,
  \<^verbatim>\<open>Total:\s*(\d+)\s*\|\s*Creados:\s*(\d+)\s*\|\s*Actualizados:\s*(\d+)\s*\|\s*Fallidos:\s*(\d+)\<close>:
  \<open>number_after lit\<close> is a literal, white space and a greedy run of digits; \<open>bar\<close> is
  \<^verbatim>\<open>\s*\|\s*\<close>. The result holds the four numbers.
\<close>

definition number_after :: "string \<Rightarrow> string \<Rightarrow> (nat \<times> string) option" where
  "number_after lit s =
     (case lit_prefix lit s of
        None \<Rightarrow> None
      | Some r \<Rightarrow>
          let r1 = dropWhile py_isspace r; ds = takeWhile is_digit r1
          in if ds = [] then None else Some (int_of_digits ds, dropWhile is_digit r1))"

definition bar :: "string \<Rightarrow> string option" where
  "bar s =
     (case dropWhile py_isspace s of
        [] \<Rightarrow> None
      | c # r \<Rightarrow> if c = CHR ''|'' then Some (dropWhile py_isspace r) else None)"

definition summary_at :: "string \<Rightarrow> (nat \<times> nat \<times> nat \<times> nat) option" where
  "summary_at s =
     (case number_after ''Total:'' s of None \<Rightarrow> None | Some (t, r1) \<Rightarrow>
     (case bar r1 of None \<Rightarrow> None | Some r2 \<Rightarrow>
     (case number_after ''Creados:'' r2 of None \<Rightarrow> None | Some (c, r3) \<Rightarrow>
     (case bar r3 of None \<Rightarrow> None | Some r4 \<Rightarrow>
     (case number_after ''Actualizados:'' r4 of None \<Rightarrow> None | Some (u, r5) \<Rightarrow>
     (case bar r5 of None \<Rightarrow> None | Some r6 \<Rightarrow>
     (case number_after ''Fallidos:'' r6 of None \<Rightarrow> None | Some (f, r7) \<Rightarrow> Some (t, c, u, f))))))))"

text \<open>
  Steps 3 to 6 on the lines of the base result: \<open>pre\<close> and \<open>post\<close> are the two snapshots,
  \<open>stats\<close> the counter \<open>no_extra_images\<close> of the context after the run. The result is the
  rewritten text and the number written to \<open>last_no_extra_images\<close>.
\<close>

definition count_created :: "fval list \<Rightarrow> fval set \<Rightarrow> fval set \<Rightarrow> nat" where
  "count_created keys pre post = length (filter (\<lambda>k. k \<notin> pre \<and> k \<in> post) keys)"

definition stats_line :: "nat \<Rightarrow> nat \<Rightarrow> nat \<Rightarrow> nat \<Rightarrow> nat \<Rightarrow> string" where
  "stats_line tot created updated failed no_extra =
     ''Total: '' @ show_nat tot @ '' | Creados: '' @ show_nat created
       @ '' | Actualizados: '' @ show_nat updated @ '' | Fallidos: '' @ show_nat failed
       @ '' | Sin imagen extra: '' @ show_nat no_extra"

definition stats_rewrite :: "fval list \<Rightarrow> fval set \<Rightarrow> fval set \<Rightarrow> nat \<Rightarrow> string \<Rightarrow> string list
    \<Rightarrow> string \<times> nat" where
  "stats_rewrite keys pre post stats first tail =
     (let soft = length (filter is_soft_line tail);
          skipped = length (filter is_skip_line tail)
      in case search summary_at first of
           None \<Rightarrow>
             (let no_extra = stats + soft + skipped
              in (join_lines ((first @ '' | Sin imagen extra: '' @ show_nat no_extra) # tail), no_extra))
         | Some (tot, c, u, failed_base) \<Rightarrow>
             (let failed_real = failed_base - soft;
                  success = tot - failed_real;
                  created_real = (if keys = [] then 0 else min (count_created keys pre post) success);
                  updated_real = success - created_real;
                  no_extra = stats + soft + skipped
              in (join_lines (stats_line tot created_real updated_real failed_real no_extra # tail),
                  no_extra)))"

text \<open>
  The whole overlay: \<open>feed\<close> is what \<open>_fetch_items\<close> returns for the snapshot (the empty
  list when it raises), \<open>items\<close> what it returns inside the base method. The result is the
  store, \<open>last_result\<close> and \<open>last_no_extra_images\<close> (\<open>None\<close>: not written).
\<close>

definition stats_action_run_import :: "env \<Rightarrow> config \<Rightarrow> store \<Rightarrow> item list \<Rightarrow> item list \<Rightarrow> nat
    \<Rightarrow> store \<times> string \<times> nat option" where
  "stats_action_run_import e cfg st feed items stats =
     (let keys = feed_keys cfg feed;
          pre = snapshot cfg st keys;
          r = base_action_run_import e cfg st items;
          lines = splitlines (rstrip_nl (snd r))
      in case lines of
           [] \<Rightarrow> (fst r, snd r, None)
         | first # tail \<Rightarrow>
             (let w = stats_rewrite keys pre (snapshot cfg (fst r) keys) stats first tail
              in (fst r, fst w, Some (snd w))))"

text \<open>
  The failed count in the words of the specification: the unreadable-image lines and the
  gallery-skip lines are both taken from it.
\<close>

definition claimed_failed :: "nat \<Rightarrow> string list \<Rightarrow> nat" where
  "claimed_failed failed_base tail =
     failed_base - (length (filter is_soft_line tail) + length (filter is_skip_line tail))"

section \<open>Concrete stores and items for the evaluations\<close>

text \<open>
  A store where the vendor's supplier link with code \<open>S\<close> points to template 1, and the
  barcode \<open>B\<close> is still on template 2.
\<close>

definition stale_store :: store where
  "stale_store =
     \<lparr> templates = [tmpl0\<lparr>t_id := 1, default_code := Some ''S''\<rparr>,
                    tmpl0\<lparr>t_id := 2, barcode := Some ''B''\<rparr>],
       variants = [],
       supplierinfos = [\<lparr> si_id = 1, partner_id = 7, product_tmpl_id = Some 1, product_code = Some ''S'' \<rparr>],
       images = [] \<rparr>"

text \<open>
  An environment (the ASCII library, a schema with all the description fields, a network
  that serves one image, a persistence engine that accepts every image), a configuration
  with vendor 7, the empty store, and a store with one record of cost 5.
\<close>

definition env0 :: env where
  "env0 = \<lparr> e_lib = ascii_lib,
     pt_fields = {''description_ecommerce'', ''website_description'', ''description'',
                  ''description_sale'', ''website_short_description''},
     pp_fields = {''website_description'', ''description'', ''description_sale''},
     download = (\<lambda>u. if u = ''http://x/sku-2.jpg'' then Some ''img2'' else None),
     has_requests = True, image_write_fails = (\<lambda>c. False), image_create_error = (\<lambda>c. None) \<rparr>"

definition cfg0 :: config where
  "cfg0 = \<lparr> vendor_id = Some 7, vendor_display_name = ''Infortisa'', map_by = Supplierinfo \<rparr>"

definition empty_store :: store where
  "empty_store = \<lparr> templates = [], variants = [], supplierinfos = [], images = [] \<rparr>"


text \<open>
  Supplier links: two vendors with the same code on record 1, and one vendor with two
  links on record 1.
\<close>

definition links_two_vendors :: "supplierinfo list" where
  "links_two_vendors =
     [\<lparr> si_id = 1, partner_id = 8, product_tmpl_id = Some 1, product_code = Some ''S'' \<rparr>,
      \<lparr> si_id = 2, partner_id = 9, product_tmpl_id = Some 1, product_code = Some ''S'' \<rparr>,
      \<lparr> si_id = 3, partner_id = 9, product_tmpl_id = Some 2, product_code = Some ''S'' \<rparr>]"

definition links_same_vendor :: "supplierinfo list" where
  "links_same_vendor =
     [\<lparr> si_id = 1, partner_id = 7, product_tmpl_id = Some 1, product_code = Some ''OLD'' \<rparr>,
      \<lparr> si_id = 2, partner_id = 7, product_tmpl_id = Some 1, product_code = Some ''S'' \<rparr>]"

text \<open>
  The scenario of the statistics: the catalogue knows the key \<open>A\<close>, the feed has the items
  \<open>A\<close>, \<open>B\<close> and \<open>C\<close>, and \<open>B\<close> has no name.
\<close>

definition store_a :: store where
  "store_a = \<lparr> templates = [tmpl0\<lparr>t_id := 1, t_name := Some (Str ''Alpha''), default_code := Some ''A''\<rparr>],
       variants = [], supplierinfos = [], images = [] \<rparr>"

definition feed_abc :: "item list" where
  "feed_abc = [[''name'' \<mapsto> Str ''Alpha'', ''sku'' \<mapsto> Str ''A''],
               [''sku'' \<mapsto> Str ''B''],
               [''name'' \<mapsto> Str ''Gamma'', ''sku'' \<mapsto> Str ''C'']]"

text \<open>A feed of one item without a name, whose key reads as a gallery-skip event.\<close>

definition skip_feed :: "item list" where
  "skip_feed = [[''sku'' \<mapsto> Str (''Galer'' @ [CHR 0xED] @ ''a saltada X1'')]]"

text \<open>An item with a web description, as markup.\<close>

definition web_item :: item where
  "web_item = [''name'' \<mapsto> Str ''Alpha'', ''sku'' \<mapsto> Str ''A'',
               ''website_description'' \<mapsto> Str ''<p>W</p>'']"



section \<open>The base method, step by step\<close>




lemma templates_links_step [simp]: "templates (links_step cfg tid sku st) = templates st"
  by (simp add: links_step_def split: option.splits)




lemma base_vals_price [simp]:
  "v_standard_price (base_vals e st item name sku bc tmpl) = item_cost (e_lib e) item"
  by (simp add: base_vals_def Let_def)


lemma t_id_write_vals [simp]: "t_id (write_vals v t) = t_id t"
  by (simp add: write_vals_def)

section \<open>Properties of the supplier-link reconciliation\<close>

lemma id_eq_iff:
  "distinct (map si_id sis) \<Longrightarrow> a \<in> set sis \<Longrightarrow> b \<in> set sis \<Longrightarrow> si_id a = si_id b \<longleftrightarrow> a = b"
  by (auto simp: distinct_map inj_on_def)

lemma length_filter_le1_iff:
  assumes "distinct xs"
  shows "length (filter P xs) \<le> 1 \<longleftrightarrow> (\<forall>a\<in>set xs. \<forall>b\<in>set xs. P a \<longrightarrow> P b \<longrightarrow> a = b)"
  using assms
proof (induction xs)
  case Nil
  then show ?case by simp
next
  case (Cons x xs)
  show ?case
  proof (cases "P x")
    case True
    have "length (filter P (x # xs)) \<le> 1 \<longleftrightarrow> filter P xs = []" using True by simp
    also have "\<dots> \<longleftrightarrow> (\<forall>b\<in>set xs. \<not> P b)" by (simp add: filter_empty_conv)
    also have "\<dots> \<longleftrightarrow> (\<forall>a\<in>set (x # xs). \<forall>b\<in>set (x # xs). P a \<longrightarrow> P b \<longrightarrow> a = b)"
    proof
      assume n: "\<forall>b\<in>set xs. \<not> P b"
      show "\<forall>a\<in>set (x # xs). \<forall>b\<in>set (x # xs). P a \<longrightarrow> P b \<longrightarrow> a = b"
        using n by simp
    next
      assume u: "\<forall>a\<in>set (x # xs). \<forall>b\<in>set (x # xs). P a \<longrightarrow> P b \<longrightarrow> a = b"
      show "\<forall>b\<in>set xs. \<not> P b"
      proof
        fix b assume b: "b \<in> set xs"
        show "\<not> P b"
        proof
          assume "P b"
          then have "x = b" using u True b by simp
          then show False using b Cons.prems by simp
        qed
      qed
    qed
    finally show ?thesis .
  next
    case False
    have "length (filter P (x # xs)) \<le> 1 \<longleftrightarrow> length (filter P xs) \<le> 1" using False by simp
    also have "\<dots> \<longleftrightarrow> (\<forall>a\<in>set xs. \<forall>b\<in>set xs. P a \<longrightarrow> P b \<longrightarrow> a = b)"
      using Cons by simp
    also have "\<dots> \<longleftrightarrow> (\<forall>a\<in>set (x # xs). \<forall>b\<in>set (x # xs). P a \<longrightarrow> P b \<longrightarrow> a = b)"
      using False by simp
    finally show ?thesis .
  qed
qed

lemma length_filter_eq1:
  assumes "distinct xs" "a \<in> set xs" "P a" "\<forall>b\<in>set xs. P b \<longrightarrow> b = a"
  shows "filter P xs = [a]"
proof -
  have "filter P xs = filter (\<lambda>b. b = a) xs"
    using assms(3,4) by (intro filter_cong) auto
  also have "\<dots> = [a]"
    using assms(1,2)
  proof (induction xs)
    case Nil
    then show ?case by simp
  next
    case (Cons x xs)
    show ?case
    proof (cases "x = a")
      case True
      then have "a \<notin> set xs" using Cons.prems(1) by simp
      then have "filter (\<lambda>b. b = a) xs = []" by (auto simp: filter_empty_conv)
      then show ?thesis using True by simp
    next
      case False
      then have "a \<in> set xs" using Cons.prems(2) by simp
      moreover have "distinct xs" using Cons.prems(1) by simp
      ultimately have "filter (\<lambda>b. b = a) xs = [a]" by (rule Cons.IH[rotated])
      then show ?thesis using False by simp
    qed
  qed
  finally show ?thesis .
qed


lemma reconcile_links_cases:
  "reconcile_links v t sku sis =
     (case find (\<lambda>si. partner_id si = v \<and> product_tmpl_id si = Some t) sis of
        Some n \<Rightarrow>
          map (\<lambda>si. if si_id si = si_id n then si_vals v t sku si else si)
            (filter (\<lambda>si. si_id si \<notin> set (map si_id (other_links v t sku sis))) sis)
      | None \<Rightarrow>
          (case other_links v t sku sis of
             [] \<Rightarrow>
               sis @ [\<lparr> si_id = fresh_id (map si_id sis), partner_id = v,
                        product_tmpl_id = Some t, product_code = Some sku \<rparr>]
           | first # rest \<Rightarrow>
               map (\<lambda>si. if si_id si = si_id first then si_vals v t sku si else si)
                 (filter (\<lambda>si. si_id si \<notin> set (map si_id (other_links v t sku sis)) \<or> si_id si = si_id first)
                    (map (\<lambda>si. if si_id si = si_id first then si\<lparr>partner_id := v\<rparr> else si) sis))))"
  by (simp only: reconcile_links_def other_links_def Let_def)

lemma si_id_si_vals [simp]: "si_id (si_vals v t sku si) = si_id si"
  by (simp add: si_vals_def)

lemma fresh_id_gt: "x \<in> set ids \<Longrightarrow> x < fresh_id ids"
proof (induction ids)
  case Nil
  then show ?case by simp
next
  case (Cons y ys)
  then show ?case by (auto simp: fresh_id_def)
qed

lemma fresh_id_notin: "fresh_id ids \<notin> set ids"
  using fresh_id_gt by blast

lemma ids_reconcile_links:
  "map si_id (reconcile_links v t sku sis) =
     (case find (\<lambda>si. partner_id si = v \<and> product_tmpl_id si = Some t) sis of
        Some n \<Rightarrow> filter (\<lambda>i. i \<notin> set (map si_id (other_links v t sku sis))) (map si_id sis)
      | None \<Rightarrow>
          (case other_links v t sku sis of
             [] \<Rightarrow> map si_id sis @ [fresh_id (map si_id sis)]
           | first # rest \<Rightarrow>
               filter (\<lambda>i. i \<notin> set (map si_id (other_links v t sku sis)) \<or> i = si_id first)
                 (map si_id sis)))"
  by (simp add: reconcile_links_cases filter_map comp_def if_distrib
      split: option.splits list.splits cong: if_cong)

lemma distinct_ids_reconcile_links:
  "distinct (map si_id sis) \<Longrightarrow> distinct (map si_id (reconcile_links v t sku sis))"
proof -
  assume d: "distinct (map si_id sis)"
  have f: "fresh_id (map si_id sis) \<notin> set (map si_id sis)" by (rule fresh_id_notin)
  show ?thesis
    using d f by (simp add: ids_reconcile_links split: option.splits list.splits)
qed


lemma other_links_mem:
  "a \<in> set (other_links v t sku sis) \<longleftrightarrow>
     a \<in> set sis \<and> product_tmpl_id a = Some t \<and> product_code a = Some sku \<and> partner_id a \<noteq> v"
  by (auto simp: other_links_def)

lemma id_in_other_links:
  assumes "distinct (map si_id sis)" "a \<in> set sis"
  shows "si_id a \<in> set (map si_id (other_links v t sku sis)) \<longleftrightarrow> a \<in> set (other_links v t sku sis)"
proof
  assume "si_id a \<in> set (map si_id (other_links v t sku sis))"
  then obtain b where b: "b \<in> set (other_links v t sku sis)" "si_id b = si_id a" by auto
  then have "b \<in> set sis" by (simp add: other_links_mem)
  then have "b = a" using id_eq_iff[OF assms(1) _ assms(2)] b(2) by blast
  then show "a \<in> set (other_links v t sku sis)" using b(1) by simp
next
  assume "a \<in> set (other_links v t sku sis)"
  then show "si_id a \<in> set (map si_id (other_links v t sku sis))" by simp
qed

lemma find_owned_Some:
  assumes "find (\<lambda>si. partner_id si = v \<and> product_tmpl_id si = Some t) sis = Some n"
  shows "n \<in> set sis" "partner_id n = v" "product_tmpl_id n = Some t"
  using assms by (auto simp: find_Some_iff)

lemma find_owned_None:
  assumes "find (\<lambda>si. partner_id si = v \<and> product_tmpl_id si = Some t) sis = None" "a \<in> set sis"
  shows "\<not> (partner_id a = v \<and> product_tmpl_id a = Some t)"
  using assms by (auto simp: find_None_iff)

lemma mem_reconcile_Some:
  assumes d: "distinct (map si_id sis)"
    and f: "find (\<lambda>si. partner_id si = v \<and> product_tmpl_id si = Some t) sis = Some n"
  shows "x \<in> set (reconcile_links v t sku sis) \<longleftrightarrow>
           x = si_vals v t sku n \<or> (x \<in> set sis \<and> x \<noteq> n \<and> x \<notin> set (other_links v t sku sis))"
proof -
  note n = find_owned_Some[OF f]
  let ?O = "other_links v t sku sis"
  let ?g = "\<lambda>si. if si_id si = si_id n then si_vals v t sku si else si"
  have nO: "n \<notin> set ?O" using n by (simp add: other_links_mem)
  have R: "reconcile_links v t sku sis = map ?g (filter (\<lambda>si. si_id si \<notin> set (map si_id ?O)) sis)"
    by (simp add: reconcile_links_cases f)
  have "x \<in> set (reconcile_links v t sku sis) \<longleftrightarrow>
          (\<exists>a\<in>set sis. si_id a \<notin> set (map si_id ?O) \<and> x = ?g a)"
    unfolding R by auto
  also have "\<dots> \<longleftrightarrow> (\<exists>a\<in>set sis. a \<notin> set ?O \<and> x = (if a = n then si_vals v t sku n else a))"
  proof (intro bex_cong refl)
    fix a assume a: "a \<in> set sis"
    have "si_id a = si_id n \<longleftrightarrow> a = n" using id_eq_iff[OF d a n(1)] .
    then show "(si_id a \<notin> set (map si_id ?O) \<and> x = ?g a)
            \<longleftrightarrow> (a \<notin> set ?O \<and> x = (if a = n then si_vals v t sku n else a))"
      using id_in_other_links[OF d a, of v t sku] by auto
  qed
  also have "\<dots> \<longleftrightarrow> x = si_vals v t sku n \<or> (x \<in> set sis \<and> x \<noteq> n \<and> x \<notin> set ?O)"
    using n(1) nO by auto
  finally show ?thesis .
qed

lemma mem_reconcile_create:
  assumes f: "find (\<lambda>si. partner_id si = v \<and> product_tmpl_id si = Some t) sis = None"
    and o: "other_links v t sku sis = []"
  shows "x \<in> set (reconcile_links v t sku sis) \<longleftrightarrow>
           x \<in> set sis \<or> x = \<lparr> si_id = fresh_id (map si_id sis), partner_id = v,
                                  product_tmpl_id = Some t, product_code = Some sku \<rparr>"
  by (auto simp: reconcile_links_cases f o)

lemma mem_reconcile_reassign:
  assumes d: "distinct (map si_id sis)"
    and f: "find (\<lambda>si. partner_id si = v \<and> product_tmpl_id si = Some t) sis = None"
    and o: "other_links v t sku sis = first # rest"
  shows "x \<in> set (reconcile_links v t sku sis) \<longleftrightarrow>
           x = si_vals v t sku first \<or> (x \<in> set sis \<and> x \<notin> set (other_links v t sku sis))"
proof -
  let ?O = "other_links v t sku sis"
  let ?h = "\<lambda>si. if si_id si = si_id first then si\<lparr>partner_id := v\<rparr> else si"
  let ?g = "\<lambda>si. if si_id si = si_id first then si_vals v t sku si else si"
  have fO: "first \<in> set ?O" using o by simp
  then have fs: "first \<in> set sis" by (simp add: other_links_mem)
  have R: "reconcile_links v t sku sis =
             map ?g (filter (\<lambda>si. si_id si \<notin> set (map si_id ?O) \<or> si_id si = si_id first) (map ?h sis))"
    by (simp add: reconcile_links_cases f o)
  let ?K = "\<lambda>si. si_id si \<notin> set (map si_id ?O) \<or> si_id si = si_id first"
  let ?gh = "\<lambda>a. if si_id a = si_id first then si_vals v t sku a else a"
  have a1: "map ?g (filter ?K (map ?h sis)) = map (?g \<circ> ?h) (filter (?K \<circ> ?h) sis)"
    by (simp only: filter_map map_map)
  have a2: "?g \<circ> ?h = ?gh" by (auto simp: fun_eq_iff si_vals_def)
  have a3: "?K \<circ> ?h = ?K" by (auto simp: fun_eq_iff)
  have R2: "reconcile_links v t sku sis = map ?gh (filter ?K sis)"
    by (simp only: R a1 a2 a3)
  have "x \<in> set (reconcile_links v t sku sis) \<longleftrightarrow>
          (\<exists>a\<in>set sis. (si_id a \<notin> set (map si_id ?O) \<or> si_id a = si_id first)
                \<and> x = (if si_id a = si_id first then si_vals v t sku a else a))"
    unfolding R2 by auto
  also have "\<dots> \<longleftrightarrow> (\<exists>a\<in>set sis. (a \<notin> set ?O \<or> a = first)
                \<and> x = (if a = first then si_vals v t sku first else a))"
  proof (intro bex_cong refl)
    fix a assume a: "a \<in> set sis"
    have "si_id a = si_id first \<longleftrightarrow> a = first" using id_eq_iff[OF d a fs] .
    then show "((si_id a \<notin> set (map si_id ?O) \<or> si_id a = si_id first)
                \<and> x = (if si_id a = si_id first then si_vals v t sku a else a))
            \<longleftrightarrow> ((a \<notin> set ?O \<or> a = first) \<and> x = (if a = first then si_vals v t sku first else a))"
      using id_in_other_links[OF d a, of v t sku] by auto
  qed
  also have "\<dots> \<longleftrightarrow> x = si_vals v t sku first \<or> (x \<in> set sis \<and> x \<notin> set ?O)"
    using fs fO by auto
  finally show ?thesis .
qed


lemma distinct_of_ids: "distinct (map si_id sis) \<Longrightarrow> distinct sis"
  by (simp add: distinct_map)

lemma link_inv_iff:
  "link_inv sis \<longleftrightarrow> distinct (map si_id sis) \<and> per_vendor_unique sis \<and> per_code_unique sis"
proof (cases "distinct (map si_id sis)")
  case False
  then show ?thesis by (simp add: link_inv_def)
next
  case True
  note ds = distinct_of_ids[OF True]
  have own: "length (owned_links v t sis) \<le> 1 \<longleftrightarrow>
      (\<forall>a\<in>set sis. \<forall>b\<in>set sis. (partner_id a = v \<and> product_tmpl_id a = Some t) \<longrightarrow>
          (partner_id b = v \<and> product_tmpl_id b = Some t) \<longrightarrow> a = b)" for v t
    unfolding owned_links_def by (rule length_filter_le1_iff[OF ds])
  have cod: "length (code_links t c sis) \<le> 1 \<longleftrightarrow>
      (\<forall>a\<in>set sis. \<forall>b\<in>set sis. (product_tmpl_id a = Some t \<and> product_code a = Some c) \<longrightarrow>
          (product_tmpl_id b = Some t \<and> product_code b = Some c) \<longrightarrow> a = b)" for t c
    unfolding code_links_def by (rule length_filter_le1_iff[OF ds])
  have A: "(\<forall>a\<in>set sis. \<forall>t. product_tmpl_id a = Some t \<longrightarrow> length (owned_links (partner_id a) t sis) \<le> 1)
        \<longleftrightarrow> per_vendor_unique sis"
    unfolding own per_vendor_unique_def by (auto, metis)
  have B: "(\<forall>a\<in>set sis. \<forall>t c. product_tmpl_id a = Some t \<longrightarrow> product_code a = Some c
              \<longrightarrow> length (code_links t c sis) \<le> 1)
        \<longleftrightarrow> per_code_unique sis"
    unfolding cod per_code_unique_def by (auto, metis)
  have "link_inv sis \<longleftrightarrow>
      (\<forall>a\<in>set sis. \<forall>t. product_tmpl_id a = Some t \<longrightarrow> length (owned_links (partner_id a) t sis) \<le> 1)
    \<and> (\<forall>a\<in>set sis. \<forall>t c. product_tmpl_id a = Some t \<longrightarrow> product_code a = Some c
              \<longrightarrow> length (code_links t c sis) \<le> 1)"
    using True by (auto simp: link_inv_def list_all_iff split: option.splits)
  then show ?thesis using True A B by simp
qed


lemma owned_le1_D:
  assumes "distinct (map si_id sis)" "length (owned_links v t sis) \<le> 1"
    "a \<in> set sis" "partner_id a = v" "product_tmpl_id a = Some t"
    "b \<in> set sis" "partner_id b = v" "product_tmpl_id b = Some t"
  shows "a = b"
proof -
  have "\<forall>a\<in>set sis. \<forall>b\<in>set sis. (partner_id a = v \<and> product_tmpl_id a = Some t) \<longrightarrow>
          (partner_id b = v \<and> product_tmpl_id b = Some t) \<longrightarrow> a = b"
    using assms(2) unfolding owned_links_def
    by (simp only: length_filter_le1_iff[OF distinct_of_ids[OF assms(1)]])
  then show ?thesis using assms(3-8) by blast
qed

lemma reconcile_shape:
  assumes d: "distinct (map si_id sis)" and o1: "length (owned_links v t sis) \<le> 1"
  obtains s K where
    "set (reconcile_links v t sku sis) = insert s K" "K \<subseteq> set sis"
    "partner_id s = v" "product_tmpl_id s = Some t" "product_code s = Some sku"
    "\<forall>x\<in>K. \<not> (partner_id x = v \<and> product_tmpl_id x = Some t)"
    "\<forall>x\<in>K. \<not> (product_tmpl_id x = Some t \<and> product_code x = Some sku)"
proof (cases "find (\<lambda>si. partner_id si = v \<and> product_tmpl_id si = Some t) sis")
  case (Some n)
  note n = find_owned_Some[OF Some]
  let ?K = "{x \<in> set sis. x \<noteq> n \<and> x \<notin> set (other_links v t sku sis)}"
  have 1: "set (reconcile_links v t sku sis) = insert (si_vals v t sku n) ?K"
    using mem_reconcile_Some[OF d Some] by blast
  have 2: "\<forall>x\<in>?K. \<not> (partner_id x = v \<and> product_tmpl_id x = Some t)"
    using owned_le1_D[OF d o1 _ _ _ n] by blast
  have 3: "\<forall>x\<in>?K. \<not> (product_tmpl_id x = Some t \<and> product_code x = Some sku)"
    using 2 by (auto simp: other_links_mem)
  show ?thesis
    by (rule that[OF 1 _ _ _ _ 2 3]) (auto simp: si_vals_def)
next
  case None
  show ?thesis
  proof (cases "other_links v t sku sis")
    case Nil
    let ?new = "\<lparr> si_id = fresh_id (map si_id sis), partner_id = v,
                   product_tmpl_id = Some t, product_code = Some sku \<rparr>"
    have 1: "set (reconcile_links v t sku sis) = insert ?new (set sis)"
      using mem_reconcile_create[OF None Nil] by blast
    have 2: "\<forall>x\<in>set sis. \<not> (partner_id x = v \<and> product_tmpl_id x = Some t)"
      using find_owned_None[OF None] by blast
    have "\<forall>x\<in>set sis. x \<notin> set (other_links v t sku sis)" using Nil by simp
    then have 3: "\<forall>x\<in>set sis. \<not> (product_tmpl_id x = Some t \<and> product_code x = Some sku)"
      using 2 by (auto simp: other_links_mem)
    show ?thesis
      by (rule that[OF 1 _ _ _ _ 2 3]) auto
  next
    case (Cons first rest)
    let ?K = "{x \<in> set sis. x \<notin> set (other_links v t sku sis)}"
    have 1: "set (reconcile_links v t sku sis) = insert (si_vals v t sku first) ?K"
      using mem_reconcile_reassign[OF d None Cons] by blast
    have 2: "\<forall>x\<in>?K. \<not> (partner_id x = v \<and> product_tmpl_id x = Some t)"
      using find_owned_None[OF None] by blast
    have 3: "\<forall>x\<in>?K. \<not> (product_tmpl_id x = Some t \<and> product_code x = Some sku)"
      using 2 by (auto simp: other_links_mem)
    show ?thesis
      by (rule that[OF 1 _ _ _ _ 2 3]) (auto simp: si_vals_def)
  qed
qed

lemma reconcile_one_code_link:
  assumes d: "distinct (map si_id sis)" and o1: "length (owned_links v t sis) \<le> 1"
  shows "\<exists>s. code_links t sku (reconcile_links v t sku sis) = [s] \<and> partner_id s = v"
proof -
  obtain s K where sh:
    "set (reconcile_links v t sku sis) = insert s K" "K \<subseteq> set sis"
    "partner_id s = v" "product_tmpl_id s = Some t" "product_code s = Some sku"
    "\<forall>x\<in>K. \<not> (partner_id x = v \<and> product_tmpl_id x = Some t)"
    "\<forall>x\<in>K. \<not> (product_tmpl_id x = Some t \<and> product_code x = Some sku)"
    using reconcile_shape[OF d o1] by blast
  have dr: "distinct (reconcile_links v t sku sis)"
    using distinct_of_ids[OF distinct_ids_reconcile_links[OF d]] .
  have "filter (\<lambda>si. product_tmpl_id si = Some t \<and> product_code si = Some sku)
           (reconcile_links v t sku sis) = [s]"
    using sh by (intro length_filter_eq1[OF dr]) auto
  then show ?thesis using sh(3) by (auto simp: code_links_def)
qed

lemma reconcile_preserves_unique:
  assumes d: "distinct (map si_id sis)"
    and pv: "per_vendor_unique sis" and pc: "per_code_unique sis"
  shows "per_vendor_unique (reconcile_links v t sku sis) \<and> per_code_unique (reconcile_links v t sku sis)"
proof -
  have o1: "length (owned_links v t sis) \<le> 1"
    unfolding owned_links_def
    using pv by (simp only: length_filter_le1_iff[OF distinct_of_ids[OF d]])
               (auto simp: per_vendor_unique_def)
  obtain s K where sh:
    "set (reconcile_links v t sku sis) = insert s K" "K \<subseteq> set sis"
    "partner_id s = v" "product_tmpl_id s = Some t" "product_code s = Some sku"
    "\<forall>x\<in>K. \<not> (partner_id x = v \<and> product_tmpl_id x = Some t)"
    "\<forall>x\<in>K. \<not> (product_tmpl_id x = Some t \<and> product_code x = Some sku)"
    using reconcile_shape[OF d o1] by blast
  have kv: "\<forall>a\<in>K. \<forall>b\<in>K. partner_id a = partner_id b \<and> product_tmpl_id a = product_tmpl_id b
          \<and> product_tmpl_id a \<noteq> None \<longrightarrow> a = b"
    using pv sh(2) unfolding per_vendor_unique_def by blast
  have kc: "\<forall>a\<in>K. \<forall>b\<in>K. product_tmpl_id a = product_tmpl_id b \<and> product_tmpl_id a \<noteq> None
          \<and> product_code a = product_code b \<and> product_code a \<noteq> None \<longrightarrow> a = b"
    using pc sh(2) unfolding per_code_unique_def by blast
  have "per_vendor_unique (reconcile_links v t sku sis)"
    unfolding per_vendor_unique_def sh(1) using kv sh(3,4,6) by (auto; metis)
  moreover have "per_code_unique (reconcile_links v t sku sis)"
    unfolding per_code_unique_def sh(1) using kc sh(4,5,7) by (auto; metis)
  ultimately show ?thesis by simp
qed


lemma owned_links_empty_iff:
  "owned_links v t sis = [] \<longleftrightarrow> find (\<lambda>si. partner_id si = v \<and> product_tmpl_id si = Some t) sis = None"
  by (auto simp: owned_links_def filter_empty_conv find_None_iff)

lemma distinct_ids_other_links:
  "distinct (map si_id sis) \<Longrightarrow> distinct (map si_id (other_links v t sku sis))"
  by (simp add: other_links_def distinct_map_filter)

text \<open>
  Claim C4, amended. Let the link identifiers be pairwise different and let the configured
  vendor own at most one link on the record before the call. After the reconciliation step
  exactly one link exists for the pair of the record and the vendor code, and the vendor
  owns it. When the vendor owned no link and links with the same code under other vendors
  existed, the first of them is still there with the vendor rewritten and its identifier
  kept, the remaining ones are deleted and no link is created. When the vendor owned a
  link, the links with the same code under other vendors are deleted and no other. When
  every (record, vendor) pair and every (record, code) pair had at most one link before the
  call, the same holds after it, hence after any sequence of calls from such a store.
\<close>

theorem reconcile_links_cardinality:
  assumes d: "distinct (map si_id sis)" and o1: "length (owned_links v t sis) \<le> 1"
  shows "length (code_links t sku (reconcile_links v t sku sis)) = 1
       \<and> list_all (\<lambda>si. partner_id si = v) (code_links t sku (reconcile_links v t sku sis))
       \<and> (\<forall>first rest. owned_links v t sis = [] \<and> other_links v t sku sis = first # rest \<longrightarrow>
             first\<lparr>partner_id := v\<rparr> \<in> set (reconcile_links v t sku sis)
             \<and> set (map si_id (reconcile_links v t sku sis)) = set (map si_id sis) - set (map si_id rest))
       \<and> (owned_links v t sis \<noteq> [] \<longrightarrow>
             set (map si_id (reconcile_links v t sku sis))
               = set (map si_id sis) - set (map si_id (other_links v t sku sis)))
       \<and> (link_inv sis \<longrightarrow> link_inv (reconcile_links v t sku sis))"
proof -
  let ?R = "reconcile_links v t sku sis"
  obtain s where s: "code_links t sku ?R = [s]" "partner_id s = v"
    using reconcile_one_code_link[OF d o1] by blast
  have p1: "length (code_links t sku ?R) = 1" using s by simp
  have p2: "list_all (\<lambda>si. partner_id si = v) (code_links t sku ?R)" using s by simp
  have p3: "first\<lparr>partner_id := v\<rparr> \<in> set ?R
             \<and> set (map si_id ?R) = set (map si_id sis) - set (map si_id rest)"
    if h: "owned_links v t sis = [] \<and> other_links v t sku sis = first # rest" for first rest
  proof -
    have f: "find (\<lambda>si. partner_id si = v \<and> product_tmpl_id si = Some t) sis = None"
      using h by (simp add: owned_links_empty_iff)
    have o: "other_links v t sku sis = first # rest" using h by simp
    have "first \<in> set (other_links v t sku sis)" using o by simp
    then have ff: "product_tmpl_id first = Some t" "product_code first = Some sku"
      by (simp_all add: other_links_mem)
    have "si_vals v t sku first = first\<lparr>partner_id := v\<rparr>"
      using ff by (simp add: si_vals_def)
    then have a: "first\<lparr>partner_id := v\<rparr> \<in> set ?R"
      using mem_reconcile_reassign[OF d f o, of "si_vals v t sku first"] by simp
    have "distinct (map si_id (first # rest))"
      using distinct_ids_other_links[OF d, of v t sku] o by simp
    then have nf: "si_id first \<notin> set (map si_id rest)" by simp
    have "map si_id ?R = filter (\<lambda>i. i \<notin> set (map si_id (first # rest)) \<or> i = si_id first) (map si_id sis)"
      by (simp add: ids_reconcile_links f o)
    then have b: "set (map si_id ?R) = set (map si_id sis) - set (map si_id rest)"
      using nf by auto
    show ?thesis using a b by simp
  qed
  have p4: "set (map si_id ?R) = set (map si_id sis) - set (map si_id (other_links v t sku sis))"
    if h: "owned_links v t sis \<noteq> []"
  proof -
    obtain n where f: "find (\<lambda>si. partner_id si = v \<and> product_tmpl_id si = Some t) sis = Some n"
      using h by (auto simp: owned_links_empty_iff)
    have "map si_id ?R = filter (\<lambda>i. i \<notin> set (map si_id (other_links v t sku sis))) (map si_id sis)"
      by (simp add: ids_reconcile_links f)
    then show ?thesis by auto
  qed
  have p5: "link_inv ?R" if "link_inv sis"
    using that reconcile_preserves_unique[OF d, of v t sku] distinct_ids_reconcile_links[OF d, of v t sku]
    by (simp add: link_inv_iff)
  show ?thesis using p1 p2 p3 p4 p5 by blast
qed

theorem reconcile_links_cardinality_witness:
  "distinct (map si_id links_two_vendors) \<and> length (owned_links 7 1 links_two_vendors) \<le> 1
   \<and> reconcile_links 7 1 ''S'' links_two_vendors
       = [\<lparr> si_id = 1, partner_id = 7, product_tmpl_id = Some 1, product_code = Some ''S'' \<rparr>,
          \<lparr> si_id = 3, partner_id = 9, product_tmpl_id = Some 2, product_code = Some ''S'' \<rparr>]
   \<and> length (code_links 1 ''S'' (reconcile_links 7 1 ''S'' links_two_vendors)) = 1
   \<and> link_inv [\<lparr> si_id = 1, partner_id = 8, product_tmpl_id = Some 1, product_code = Some ''S'' \<rparr>]
   \<and> link_inv (reconcile_links 7 1 ''S''
        [\<lparr> si_id = 1, partner_id = 8, product_tmpl_id = Some 1, product_code = Some ''S'' \<rparr>])"
proof -
  let ?one = "[\<lparr> si_id = 1, partner_id = 8, product_tmpl_id = Some 1, product_code = Some ''S'' \<rparr>]"
  have d: "distinct (map si_id links_two_vendors)" by code_simp
  have o: "length (owned_links 7 1 links_two_vendors) \<le> 1" by code_simp
  have r: "reconcile_links 7 1 ''S'' links_two_vendors
       = [\<lparr> si_id = 1, partner_id = 7, product_tmpl_id = Some 1, product_code = Some ''S'' \<rparr>,
          \<lparr> si_id = 3, partner_id = 9, product_tmpl_id = Some 2, product_code = Some ''S'' \<rparr>]"
    by code_simp
  have c: "length (code_links 1 ''S'' (reconcile_links 7 1 ''S'' links_two_vendors)) = 1"
    using reconcile_links_cardinality[OF d o, of "''S''"] by blast
  have d1: "distinct (map si_id ?one)" by simp
  have o1: "length (owned_links 7 1 ?one) \<le> 1" by code_simp
  have i1: "link_inv ?one" by code_simp
  have i2: "link_inv (reconcile_links 7 1 ''S'' ?one)"
    using reconcile_links_cardinality[OF d1 o1, of "''S''"] i1 by blast
  show ?thesis using d o r c i1 i2 by simp
qed

text \<open>
  Claim C4 as stated fails: when the vendor already owns two links on the record, with
  the codes \<open>OLD\<close> and \<open>S\<close>, each (record, code) pair has one link before the call for \<open>S\<close>
  and the pair (record, \<open>S\<close>) has two after it.
\<close>

theorem reconcile_links_same_vendor_counterexample:
  "length (code_links 1 ''OLD'' links_same_vendor) = 1
   \<and> length (code_links 1 ''S'' links_same_vendor) = 1
   \<and> length (code_links 1 ''S'' (reconcile_links 7 1 ''S'' links_same_vendor)) = 2"
  by code_simp

section \<open>Properties of the identity resolver\<close>

lemma first_match_Cons:
  "first_match (m # ms) = (case m of None \<Rightarrow> first_match ms | Some t \<Rightarrow> Some t)"
  by (cases m) simp_all

lemma find_template_links:
  "(if map_by cfg = Supplierinfo \<and> sku \<noteq> [] then
           (let own =
              (case vendor_id cfg of
                 None \<Rightarrow> None
               | Some v \<Rightarrow>
                   (case find (\<lambda>si. partner_id si = v \<and> product_code si = Some sku) (supplierinfos st) of
                      None \<Rightarrow> None
                    | Some si \<Rightarrow> product_tmpl_id si))
            in if own = None
               then (case find (\<lambda>si. product_code si = Some sku) (supplierinfos st) of
                       None \<Rightarrow> None
                     | Some si_any \<Rightarrow> product_tmpl_id si_any)
               else own)
         else None)
   = (if map_by cfg = Supplierinfo then first_match [by_vendor_link cfg st sku, by_any_link st sku] else None)"
  by (auto simp: by_vendor_link_def by_any_link_def Let_def first_match_Cons split: option.splits)

lemma find_template_alt:
  "find_template cfg st sku bc =
     (let t1 = (if map_by cfg = Supplierinfo then first_match [by_vendor_link cfg st sku, by_any_link st sku] else None);
          t2 = (if t1 = None then by_default_code st sku else t1);
          t3 = (if t2 = None then by_barcode st bc else t2)
      in t3)"
  unfolding find_template_def find_template_links
  by (auto simp: by_default_code_def by_barcode_def Let_def)

text \<open>
  Claim C5, amended. With the priority \<open>supplierinfo\<close> (supplier code) the resolver returns
  the first match of: (a) the first supplier link of this vendor with that product code,
  (b) the first supplier link of any vendor with it, (c) the first template whose
  \<open>default_code\<close> is the sku, (d) the first template whose \<open>barcode\<close> is the barcode. With
  the priorities \<open>default_code\<close> and \<open>barcode\<close> it looks at no supplier link and returns
  the first match of (c), (d), in that order for both. A record matched through the
  vendor's supplier link is returned whatever the barcode matches.
\<close>

theorem find_template_order:
  "(map_by cfg = Supplierinfo \<longrightarrow>
      find_template cfg st sku bc
        = first_match [by_vendor_link cfg st sku, by_any_link st sku, by_default_code st sku, by_barcode st bc])
   \<and> (map_by cfg \<noteq> Supplierinfo \<longrightarrow>
      find_template cfg st sku bc = first_match [by_default_code st sku, by_barcode st bc])
   \<and> (map_by cfg = Supplierinfo \<and> by_vendor_link cfg st sku = Some t \<longrightarrow>
      find_template cfg st sku bc = Some t)"
  by (auto simp: find_template_alt Let_def first_match_Cons split: option.splits)

theorem find_template_order_witness:
  "by_vendor_link \<lparr>vendor_id = Some 7, vendor_display_name = ''V'', map_by = Supplierinfo\<rparr> stale_store ''S'' = Some 1
   \<and> by_barcode stale_store ''B'' = Some 2
   \<and> find_template \<lparr>vendor_id = Some 7, vendor_display_name = ''V'', map_by = Supplierinfo\<rparr> stale_store ''S'' ''B'' = Some 1
   \<and> find_template \<lparr>vendor_id = Some 7, vendor_display_name = ''V'', map_by = Default_code\<rparr> stale_store ''S'' ''B''
       = first_match [by_default_code stale_store ''S'', by_barcode stale_store ''B'']"
proof -
  let ?c = "\<lparr>vendor_id = Some 7, vendor_display_name = ''V'', map_by = Supplierinfo\<rparr>"
  let ?d = "\<lparr>vendor_id = Some 7, vendor_display_name = ''V'', map_by = Default_code\<rparr>"
  have a: "by_vendor_link ?c stale_store ''S'' = Some 1" by code_simp
  have b: "by_barcode stale_store ''B'' = Some 2" by code_simp
  have m: "map_by ?c = Supplierinfo" "map_by ?d \<noteq> Supplierinfo" by simp_all
  have r1: "find_template ?c stale_store ''S'' ''B'' = Some 1"
    using find_template_order[of ?c stale_store "''S''" "''B''" 1] a m(1) by blast
  have r2: "find_template ?d stale_store ''S'' ''B''
       = first_match [by_default_code stale_store ''S'', by_barcode stale_store ''B'']"
    using find_template_order[of ?d stale_store "''S''" "''B''"] m(2) by blast
  show ?thesis using a b r1 r2 by simp
qed

text \<open>
  Claim C5 as stated fails for the priority \<open>barcode\<close>: the exact barcode match (template
  2) is not tried first; the \<open>default_code\<close> match (template 1) wins.
\<close>

theorem find_template_barcode_priority_counterexample:
  "by_barcode stale_store ''B'' = Some 2
   \<and> claimed_resolution \<lparr>vendor_id = Some 7, vendor_display_name = ''V'', map_by = Barcode\<rparr> stale_store ''S'' ''B'' = Some 2
   \<and> find_template \<lparr>vendor_id = Some 7, vendor_display_name = ''V'', map_by = Barcode\<rparr> stale_store ''S'' ''B'' = Some 1"
  by code_simp

section \<open>Properties of the category path splitter\<close>

lemma slash_sep_at_iff:
  "slash_sep_at s i \<longleftrightarrow>
     i + 2 < length s \<and> s ! i = CHR '' '' \<and> s ! (i + 1) = CHR ''/'' \<and> s ! (i + 2) = CHR '' ''"
proof (cases "i + 2 < length s")
  case True
  then have "take 3 (drop i s) = [s ! i, s ! (i + 1), s ! (i + 2)]"
    by (simp add: list_eq_iff_nth_eq nth_Cons' numeral_3_eq_3 less_Suc_eq)
  then show ?thesis using True by (simp add: slash_sep_at_def)
next
  case False
  then have "length (take 3 (drop i s)) < 3" by simp
  then have "take 3 (drop i s) \<noteq> '' / ''" by (metis length_Cons list.size(3) less_irrefl numeral_3_eq_3)
  then show ?thesis using False by (simp add: slash_sep_at_def)
qed

lemma gt_sep_at_iff:
  "gt_sep_at s i \<longleftrightarrow>
     i < length s \<and> s ! i = CHR ''>'' \<and> 0 < i \<and> s ! (i - 1) = CHR '' ''
       \<and> (i + 1 = length s \<or> s ! (i + 1) = CHR '' '')"
proof (cases "0 < i \<and> i < length s")
  case True
  then obtain j where j: "i = Suc j" by (cases i) auto
  have a: "take 2 (drop (i - 1) s) = [s ! (i - 1), s ! i]"
    using True unfolding j by (auto simp add: list_eq_iff_nth_eq nth_Cons' numeral_2_eq_2 less_Suc_eq)
  have b: "drop (i + 1) s = [] \<longleftrightarrow> i + 1 = length s" using True by auto
  have c: "i + 1 < length s \<Longrightarrow> take 1 (drop (i + 1) s) = [s ! (i + 1)]"
    by (simp add: list_eq_iff_nth_eq)
  show ?thesis using True a b c by (auto simp: gt_sep_at_def)
next
  case False
  then have "0 < i \<Longrightarrow> length (take 2 (drop (i - 1) s)) < 2" by auto
  then have "0 < i \<Longrightarrow> take 2 (drop (i - 1) s) \<noteq> '' >''"
    by (metis length_Cons list.size(3) less_irrefl numeral_2_eq_2)
  then show ?thesis using False by (auto simp: gt_sep_at_def)
qed


lemma depth_before_Suc:
  "i < length s \<Longrightarrow> depth_before s (Suc i) = paren_step (depth_before s i) (s ! i)"
  by (simp add: depth_before_def take_Suc_conv_app_nth)

lemma paren_step_neutral:
  "ch \<noteq> CHR ''('' \<Longrightarrow> ch \<noteq> CHR '')'' \<Longrightarrow> paren_step d ch = d"
  by (simp add: paren_step_def)

lemma flush_eq: "flush buf parts = parts @ filter (\<lambda>x. x \<noteq> []) [strip buf]"
  by (simp add: flush_def Let_def)

lemma buf_extend:
  assumes "b \<le> i" "i < length s"
  shows "take (i - b) (drop b s) @ [s ! i] = take (Suc i - b) (drop b s)"
proof -
  have "i - b < length (drop b s)" using assms by simp
  then have "take (Suc (i - b)) (drop b s) = take (i - b) (drop b s) @ [drop b s ! (i - b)]"
    by (rule take_Suc_conv_app_nth)
  moreover have "drop b s ! (i - b) = s ! i" using assms by simp
  moreover have "Suc (i - b) = Suc i - b" using assms by simp
  ultimately show ?thesis by simp
qed

lemma split_loop_pieces:
  "b \<le> i \<Longrightarrow> i \<le> length s \<Longrightarrow>
   split_loop s i (depth_before s i) (take (i - b) (drop b s)) parts
     = parts @ filter (\<lambda>x. x \<noteq> []) (map strip (pieces s b i))"
proof (induction "length s - i" arbitrary: i b parts rule: less_induct)
  case less
  show ?case
  proof (cases "i < length s")
    case False
    then have "i = length s" using less.prems by simp
    then show ?thesis
      by (subst split_loop.simps, subst pieces.simps) (simp add: flush_eq)
  next
    case True
    let ?d = "depth_before s i"
    let ?buf = "take (i - b) (drop b s)"
    show ?thesis
    proof (cases "?d = 0 \<and> slash_sep_at s i")
      case sl: True
      then have idx: "i + 2 < length s" "s ! i = CHR '' ''" "s ! (i + 1) = CHR ''/''"
        "s ! (i + 2) = CHR '' ''" by (simp_all add: slash_sep_at_iff)
      have d1: "depth_before s (i + 1) = ?d"
        using True idx by (simp add: depth_before_Suc paren_step_neutral)
      have d2: "depth_before s (i + 2) = ?d"
        using idx d1 depth_before_Suc[of "i + 1" s] by (simp add: paren_step_neutral)
      have d3: "depth_before s (i + 3) = ?d"
        using idx d2 depth_before_Suc[of "i + 2" s]
        by (simp add: paren_step_neutral numeral_3_eq_3)
      have IH: "split_loop s (i + 3) (depth_before s (i + 3)) (take (i + 3 - (i + 3)) (drop (i + 3) s)) (flush ?buf parts)
           = flush ?buf parts @ filter (\<lambda>x. x \<noteq> []) (map strip (pieces s (i + 3) (i + 3)))"
        using idx by (intro less.hyps) auto
      have L: "split_loop s i ?d ?buf parts = split_loop s (i + 3) ?d [] (flush ?buf parts)"
        using True sl idx by (subst split_loop.simps) (simp add: paren_step_neutral Let_def)
      have R: "pieces s b i = ?buf # pieces s (i + 3) (i + 3)"
        using True sl by (subst pieces.simps) simp
      show ?thesis using IH by (simp add: L R d3 flush_eq)
    next
      case nsl: False
      show ?thesis
      proof (cases "?d = 0 \<and> gt_sep_at s i")
        case gt: True
        then have idx: "s ! i = CHR ''>''" "0 < i" "s ! (i - 1) = CHR '' ''"
          "i + 1 = length s \<or> s ! (i + 1) = CHR '' ''" by (simp_all add: gt_sep_at_iff)
        have d1: "depth_before s (Suc i) = ?d"
          using True idx by (simp add: depth_before_Suc paren_step_neutral)
        have "split_loop s (i + 1) (depth_before s (i + 1)) (take (i + 1 - (i + 1)) (drop (i + 1) s)) (flush ?buf parts)
           = flush ?buf parts @ filter (\<lambda>x. x \<noteq> []) (map strip (pieces s (i + 1) (i + 1)))"
          using True by (intro less.hyps) auto
        then have IH: "split_loop s (Suc i) ?d [] (flush ?buf parts)
           = flush ?buf parts @ filter (\<lambda>x. x \<noteq> []) (map strip (pieces s (Suc i) (Suc i)))"
          by (simp add: d1)
        have nosl: "\<not> (i + 2 < length s \<and> s ! i = CHR '' '')" using idx by simp
        have L: "split_loop s i ?d ?buf parts = split_loop s (Suc i) ?d [] (flush ?buf parts)"
          using True gt idx by (subst split_loop.simps) (simp add: paren_step_neutral Let_def)
        have R: "pieces s b i = ?buf # pieces s (Suc i) (Suc i)"
          using True gt nsl by (subst pieces.simps) auto
        show ?thesis unfolding L R using IH by (simp add: flush_eq)
      next
        case ngt: False
        have IH: "split_loop s (Suc i) (depth_before s (Suc i)) (take (Suc i - b) (drop b s)) parts
           = parts @ filter (\<lambda>x. x \<noteq> []) (map strip (pieces s b (Suc i)))"
          using True less.prems by (intro less.hyps) auto
        have c1: "\<not> (paren_step ?d (s ! i) = 0 \<and> i + 2 < length s \<and> s ! i = CHR '' ''
               \<and> s ! (i + 1) = CHR ''/'' \<and> s ! (i + 2) = CHR '' '')"
          using nsl by (auto simp: slash_sep_at_iff paren_step_neutral)
        have c2: "\<not> (paren_step ?d (s ! i) = 0 \<and> s ! i = CHR ''>'' \<and> i > 0 \<and> s ! (i - 1) = CHR '' ''
                    \<and> (i + 1 = length s \<or> s ! (i + 1) = CHR '' ''))"
          using ngt True by (auto simp: gt_sep_at_iff paren_step_neutral)
        have "split_loop s i ?d ?buf parts
            = split_loop s (i + 1) (paren_step ?d (s ! i)) (?buf @ [s ! i]) parts"
          by (subst split_loop.simps) (simp only: Let_def True c1 c2 if_True if_False)
        then have L: "split_loop s i ?d ?buf parts
            = split_loop s (Suc i) (depth_before s (Suc i)) (take (Suc i - b) (drop b s)) parts"
          using True less.prems by (simp add: depth_before_Suc buf_extend)
        have R: "pieces s b i = pieces s b (Suc i)"
          using True nsl ngt by (subst pieces.simps) auto
        show ?thesis using IH by (simp add: L R)
      qed
    qed
  qed
qed

lemma smart_split_refines: "smart_split_ecom_path s = spec_split s"
  using split_loop_pieces[of 0 0 s "[]"]
  by (simp add: smart_split_ecom_path_def spec_split_def depth_before_def Let_def)


lemma pieces_no_sep:
  "\<not> has_top_sep s \<Longrightarrow> pieces s b i = [drop b s]"
proof (induction "length s - i" arbitrary: i rule: less_induct)
  case less
  show ?case
  proof (cases "i < length s")
    case False
    then show ?thesis by (subst pieces.simps) simp
  next
    case True
    then have "\<not> top_sep_at s i" using less.prems
      by (auto simp: has_top_sep_def list_ex_iff)
    then have "pieces s b i = pieces s b (i + 1)"
      using True by (subst pieces.simps) (auto simp: top_sep_at_def)
    moreover have "pieces s b (i + 1) = [drop b s]"
      using True less.prems by (intro less.hyps) auto
    ultimately show ?thesis by simp
  qed
qed

lemma spec_split_no_sep: "\<not> has_top_sep s \<Longrightarrow> spec_split s = [strip s]"
  by (simp add: spec_split_def pieces_no_sep)

text \<open>
  Claim C6, amended. For every text the splitter returns what the specification-level
  splitter returns: it cuts only at \<open>" / "\<close> and at \<open>" >"\<close> followed by a blank or by the
  end of the text, where the parenthesis depth is zero, scanning from left to right, and
  keeps the trimmed non-empty pieces. When the text has no such separator the result is the
  trimmed text as a single segment. \<open>"Audio / Video (4 > 8 in)"\<close> gives
  \<open>["Audio", "Video (4 > 8 in)"]\<close> and \<open>"Single Category"\<close> gives \<open>["Single Category"]\<close>.
\<close>

theorem smart_split_top_level:
  "smart_split_ecom_path s = spec_split s
   \<and> (\<not> has_top_sep s \<longrightarrow> smart_split_ecom_path s = [strip s])
   \<and> smart_split_ecom_path ''Audio / Video (4 > 8 in)'' = [''Audio'', ''Video (4 > 8 in)'']
   \<and> smart_split_ecom_path ''Single Category'' = [''Single Category'']"
proof (intro conjI impI)
  show "smart_split_ecom_path s = spec_split s" by (rule smart_split_refines)
  show "smart_split_ecom_path s = [strip s]" if "\<not> has_top_sep s"
    using that by (simp add: smart_split_refines spec_split_no_sep)
  show "smart_split_ecom_path ''Audio / Video (4 > 8 in)'' = [''Audio'', ''Video (4 > 8 in)'']"
    by code_simp
  show "smart_split_ecom_path ''Single Category'' = [''Single Category'']"
    by code_simp
qed

theorem smart_split_top_level_witness:
  "\<not> has_top_sep ''Monitors (27 > 32 in)''
   \<and> smart_split_ecom_path ''Monitors (27 > 32 in)'' = [''Monitors (27 > 32 in)'']
   \<and> smart_split_ecom_path ''a > b / c'' = spec_split ''a > b / c''
   \<and> spec_split ''a > b / c'' = [''a'', ''b'', ''c'']"
proof -
  have h: "\<not> has_top_sep ''Monitors (27 > 32 in)''" by code_simp
  from smart_split_top_level[of "''Monitors (27 > 32 in)''"] h
  have "smart_split_ecom_path ''Monitors (27 > 32 in)'' = [strip ''Monitors (27 > 32 in)'']"
    by blast
  moreover have "strip ''Monitors (27 > 32 in)'' = ''Monitors (27 > 32 in)''" by code_simp
  moreover have "smart_split_ecom_path ''a > b / c'' = spec_split ''a > b / c''"
    using smart_split_top_level[of "''a > b / c''"] by blast
  moreover have "spec_split ''a > b / c'' = [''a'', ''b'', ''c'']" by code_simp
  ultimately show ?thesis using h by simp
qed

text \<open>
  Claim C6 as stated fails: \<open>"a >"\<close> holds neither \<open>" / "\<close> nor \<open>" > "\<close>, and the
  splitter still cuts at the trailing \<open>" >"\<close>: it returns \<open>["a"]\<close>, not the trimmed text.
\<close>

theorem smart_split_trailing_gt_counterexample:
  "\<not> has_claimed_sep ''a >'' \<and> smart_split_ecom_path ''a >'' = [''a'']
   \<and> smart_split_ecom_path ''a >'' \<noteq> [strip ''a >'']"
  by code_simp

section \<open>Properties of the gallery URL derivation\<close>

lemma strip_fixed:
  assumes "s \<noteq> []" "\<not> py_isspace (hd s)" "\<not> py_isspace (last s)"
  shows "strip s = s"
proof -
  have a: "dropWhile py_isspace s = s" using assms by (cases s) auto
  obtain x xs where r: "rev s = x # xs" using assms by (cases "rev s") auto
  then have "x = last s" using assms by (metis hd_rev list.sel(1))
  then have "dropWhile py_isspace (x # xs) = x # xs" using assms(3) by simp
  then have "dropWhile py_isspace (rev s) = rev s" by (simp only: r)
  then show ?thesis by (simp add: strip_def a)
qed

lemma char_eq_code: "(c = d) \<longleftrightarrow> (of_char c :: nat) = of_char d"
  by (simp only: of_char_eq_iff)

lemma of_char_ascii_lower:
  "(of_char (ascii_lower c) :: nat) =
     (if 65 \<le> (of_char c :: nat) \<and> (of_char c :: nat) \<le> 90 then of_char c + 32 else of_char c)"
  by (simp add: ascii_lower_def Let_def)

lemma ascii_lower_dot: "ascii_lower c = CHR ''.'' \<longleftrightarrow> c = CHR ''.''"
  by (auto simp: char_eq_code[of _ "CHR ''.''"] of_char_ascii_lower)


lemma set_image_exts:
  "x \<in> set image_exts \<Longrightarrow> set x \<subseteq> {CHR ''j'', CHR ''p'', CHR ''g'', CHR ''e'', CHR ''n'', CHR ''w'', CHR ''b''} \<and> x \<noteq> []"
  by (auto simp: image_exts_def)

lemma ext_chars:
  assumes "map ascii_lower e \<in> set image_exts" "c \<in> set e"
  shows "ascii_lower c \<in> {CHR ''j'', CHR ''p'', CHR ''g'', CHR ''e'', CHR ''n'', CHR ''w'', CHR ''b''}"
proof -
  have "ascii_lower c \<in> set (map ascii_lower e)" using assms(2) by simp
  then show ?thesis using set_image_exts[OF assms(1)] by blast
qed

lemma ext_no_dot:
  assumes "map ascii_lower e \<in> set image_exts"
  shows "CHR ''.'' \<notin> set e"
proof
  assume "CHR ''.'' \<in> set e"
  from ext_chars[OF assms this] show False by (simp add: ascii_lower_def)
qed

lemma ext_no_space:
  assumes "map ascii_lower e \<in> set image_exts" "c \<in> set e"
  shows "\<not> py_isspace c"
proof
  assume sp: "py_isspace c"
  then have "ascii_lower c = c" by (auto simp: py_isspace_def ascii_lower_def Let_def)
  with ext_chars[OF assms] have "c \<in> {CHR ''j'', CHR ''p'', CHR ''g'', CHR ''e'', CHR ''n'', CHR ''w'', CHR ''b''}"
    by simp
  with sp show False by (auto simp: py_isspace_def)
qed

lemma ext_nonempty: "map ascii_lower e \<in> set image_exts \<Longrightarrow> e \<noteq> []"
  using set_image_exts by fastforce

lemma match_ext_None:
  "r = [] \<or> hd r \<noteq> CHR ''.'' \<or> CHR ''.'' \<in> set (tl r) \<Longrightarrow> match_ext r = None"
proof (cases r)
  case Nil
  then show ?thesis by (simp add: match_ext_def)
next
  case (Cons c e)
  assume a: "r = [] \<or> hd r \<noteq> CHR ''.'' \<or> CHR ''.'' \<in> set (tl r)"
  show ?thesis
  proof (cases "c = CHR ''.''")
    case False
    then show ?thesis by (simp add: match_ext_def Cons)
  next
    case True
    then have d: "CHR ''.'' \<in> set e" using a Cons by simp
    then have n1: "map ascii_lower e \<notin> set image_exts" using ext_no_dot by blast
    have n2: "\<not> (e \<noteq> [] \<and> last e = CHR 0x0A \<and> map ascii_lower (butlast e) \<in> set image_exts)"
    proof
      assume h: "e \<noteq> [] \<and> last e = CHR 0x0A \<and> map ascii_lower (butlast e) \<in> set image_exts"
      then have "e = butlast e @ [CHR 0x0A]" by (metis append_butlast_last_id)
      then have "set e = set (butlast e) \<union> {CHR 0x0A}" by (metis set_append list.simps(15) empty_set)
      with d have "CHR ''.'' \<in> set (butlast e)" by auto
      with h ext_no_dot show False by blast
    qed
    show ?thesis using n1 n2 True by (simp add: match_ext_def Cons)
  qed
qed

lemma match_ext_Some:
  "map ascii_lower e \<in> set image_exts \<Longrightarrow> match_ext (CHR ''.'' # e) = Some e"
  by (simp add: match_ext_def)


lemma is_digit_not_dot: "is_digit c \<Longrightarrow> c \<noteq> CHR ''.''"
  by (auto simp: is_digit_def)

lemma sep_not_digit: "c = CHR ''-'' \<or> c = CHR ''_'' \<Longrightarrow> \<not> is_digit c \<and> c \<noteq> CHR ''.''"
  by (auto simp: is_digit_def)

lemma tail_matches_none:
  assumes sep: "\<not> is_digit sep" "sep \<noteq> CHR ''.''"
    and t': "CHR ''.'' \<in> set t'" "t' \<noteq> []" "hd t' \<noteq> CHR ''.''"
  shows "tail_matches (x # xs @ sep # t') = []"
proof -
  have m0: "match_ext (x # xs @ sep # t') = None"
    using t' by (intro match_ext_None) simp
  have m1: "match_ext (zs @ sep # t') = None" for zs
    using t' sep by (intro match_ext_None) (cases zs; simp)
  have m2: "match_ext (drop 1 (xs @ sep # t')) = None"
  proof (cases xs)
    case Nil
    then show ?thesis using t' by (intro match_ext_None) simp
  next
    case (Cons y ys)
    then show ?thesis using m1[of ys] by simp
  qed
  have m3: "2 \<le> length (xs @ sep # t') \<Longrightarrow> is_digit ((xs @ sep # t') ! 0) \<Longrightarrow>
            is_digit ((xs @ sep # t') ! 1) \<Longrightarrow> match_ext (drop 2 (xs @ sep # t')) = None"
  proof (cases xs)
    case Nil
    assume "is_digit ((xs @ sep # t') ! 0)"
    then show ?thesis using Nil sep by simp
  next
    case (Cons y ys)
    assume d: "is_digit ((xs @ sep # t') ! 1)"
    show ?thesis
    proof (cases ys)
      case Nil
      then show ?thesis using d Cons sep by simp
    next
      case (Cons z zs)
      then show ?thesis using \<open>xs = y # ys\<close> m1[of zs] by simp
    qed
  qed
  have n_r: "concat (map (\<lambda>(num, r2). (case match_ext r2 of None \<Rightarrow> [] | Some ext \<Rightarrow> [(s0, num, ext)]))
              (num_opts (x # xs @ sep # t'))) = []" for s0 :: "char option"
    using m0 m1 m2 by (auto simp: num_opts_def)
  have n_t: "concat (map (\<lambda>(num, r2). (case match_ext r2 of None \<Rightarrow> [] | Some ext \<Rightarrow> [(s0, num, ext)]))
              (num_opts (xs @ sep # t'))) = []" for s0 :: "char option"
    using m1 m2 m3 by (auto simp: num_opts_def)
  show ?thesis
    unfolding tail_matches_def sep_opts_def using n_r n_t by (simp split: if_splits)
qed


lemma tail_matches_hit:
  assumes sep: "sep = CHR ''-'' \<or> sep = CHR ''_''"
    and num: "length num = 1 \<or> length num = 2" "\<forall>c \<in> set num. is_digit c"
    and ext: "map ascii_lower ext \<in> set image_exts"
  shows "\<exists>rest. tail_matches (sep # num @ ''.'' @ ext) = (Some sep, Some num, ext) # rest"
proof -
  have nd: "\<not> is_digit (CHR ''.'')" by (simp add: is_digit_def)
  from num(1) show ?thesis
  proof
    assume "length num = 1"
    then obtain a where a: "num = [a]" by (cases num) auto
    then have "is_digit a" using num(2) by simp
    then show ?thesis using sep nd a match_ext_Some[OF ext]
      by (auto simp: tail_matches_def sep_opts_def num_opts_def)
  next
    assume "length num = 2"
    then obtain a b where ab: "num = [a, b]"
      by (cases num; cases "tl num") auto
    then have "is_digit a" "is_digit b" using num(2) by simp_all
    then show ?thesis using sep ab match_ext_Some[OF ext]
      by (auto simp: tail_matches_def sep_opts_def num_opts_def)
  qed
qed

lemma concat_map_empty: "(\<And>k. k \<in> set ks \<Longrightarrow> f k = []) \<Longrightarrow> concat (map f ks) = []"
  by (induction ks) auto

lemma regex_match_numbered:
  assumes base: "base \<noteq> []" "CHR 0x0A \<notin> set base"
    and sep: "sep = CHR ''-'' \<or> sep = CHR ''_''"
    and num: "length num = 1 \<or> length num = 2" "\<forall>c \<in> set num. is_digit c"
    and ext: "map ascii_lower ext \<in> set image_exts"
  shows "regex_match (base @ [sep] @ num @ ''.'' @ ext) = Some (base, Some sep, Some num, ext)"
proof -
  let ?s = "base @ [sep] @ num @ ''.'' @ ext"
  let ?b = "length base"
  have numne: "num \<noteq> []" using num(1) by auto
  have t1: "CHR ''.'' \<in> set (num @ ''.'' @ ext)" by simp
  have t2: "num @ ''.'' @ ext \<noteq> []" by simp
  have t3: "hd (num @ ''.'' @ ext) \<noteq> CHR ''.''"
    using numne num(2) is_digit_not_dot by (cases num) auto
  have early: "base_matches ?s k = []" if k: "k \<in> set [1..<?b]" for k
  proof -
    from k have kb: "1 \<le> k" "k < ?b" by auto
    then obtain x xs where dx: "drop k base = x # xs" by (cases "drop k base") auto
    have "drop k ?s = x # xs @ sep # (num @ ''.'' @ ext)" using kb dx by simp
    then have "tail_matches (drop k ?s) = []"
      using tail_matches_none[OF _ _ t1 t2 t3, of sep x xs] sep_not_digit[OF sep] by simp
    then show ?thesis by (simp add: base_matches_def)
  qed
  obtain rest where hit: "tail_matches (sep # num @ ''.'' @ ext) = (Some sep, Some num, ext) # rest"
    using tail_matches_hit[OF sep num ext] by blast
  have atb: "base_matches ?s ?b = (base, Some sep, Some num, ext) # map (\<lambda>(sep, num, ext). (base, sep, num, ext)) rest"
    using base(2) hit by (simp add: base_matches_def)
  have lens: "?b < length ?s + 1" by simp
  have b1: "1 \<le> ?b" using base(1) by (cases base) auto
  obtain d where d: "length ?s + 1 = ?b + d" using lens by (metis less_imp_add_positive)
  have "[1..<?b + d] = [1..<?b] @ [?b..<?b + d]"
    using b1 by (rule upt_add_eq_append)
  then have "[1..<length ?s + 1] = [1..<?b] @ [?b..<length ?s + 1]"
    by (simp only: d)
  moreover have "[?b..<length ?s + 1] = ?b # [Suc ?b..<length ?s + 1]"
    using lens by (rule upt_conv_Cons)
  ultimately have split: "[1..<length ?s + 1] = [1..<?b] @ ?b # [Suc ?b..<length ?s + 1]"
    by simp
  have e0: "concat (map (base_matches ?s) [1..<?b]) = []"
    using early by (intro concat_map_empty) blast
  have "concat (map (base_matches ?s) [1..<length ?s + 1])
      = concat (map (base_matches ?s) [1..<?b]) @ base_matches ?s ?b
        @ concat (map (base_matches ?s) [Suc ?b..<length ?s + 1])"
    by (simp only: split map_append concat_append list.map concat.simps)
  then have "\<exists>more. concat (map (base_matches ?s) [1..<length ?s + 1])
      = (base, Some sep, Some num, ext) # more"
    by (simp only: e0 atb) simp
  then show ?thesis unfolding regex_match_def by auto
qed


lemma digit_val_digit_char: "d < 10 \<Longrightarrow> digit_val (digit_char d) = d"
  by (simp add: digit_val_def digit_char_def)

lemma int_of_digits_snoc: "int_of_digits (ds @ [c]) = 10 * int_of_digits ds + digit_val c"
  by (simp add: int_of_digits_def)

lemma int_of_digits_show_nat: "int_of_digits (show_nat n) = n"
proof (induction n rule: show_nat.induct)
  case (1 n)
  show ?case
  proof (cases "n < 10")
    case True
    then show ?thesis
      by (subst show_nat.simps) (simp add: int_of_digits_def digit_val_digit_char)
  next
    case False
    then have "int_of_digits (show_nat (n div 10)) = n div 10" using 1 by simp
    then show ?thesis using False
      by (subst show_nat.simps) (simp add: int_of_digits_snoc digit_val_digit_char)
  qed
qed

lemma show_nat_inj: "show_nat i = show_nat j \<Longrightarrow> i = j"
  by (metis int_of_digits_show_nat)

lemma clean_fold_keeps:
  assumes "\<And>u. u \<in> set us \<Longrightarrow> strip u = u \<and> u \<noteq> [] \<and> u \<noteq> main"
    and "distinct (acc @ us)"
  shows "foldl (clean_step main) acc us = acc @ us"
  using assms
proof (induction us arbitrary: acc)
  case Nil
  then show ?case by simp
next
  case (Cons u us)
  have "clean_step main acc u = acc @ [u]"
    using Cons.prems by (simp add: clean_step_def)
  moreover have "foldl (clean_step main) (acc @ [u]) us = (acc @ [u]) @ us"
    using Cons.prems by (intro Cons.IH) auto
  ultimately show ?case by simp
qed


lemma last_dropWhile_same: "dropWhile P xs \<noteq> [] \<Longrightarrow> last (dropWhile P xs) = last xs"
  by (metis takeWhile_dropWhile_id last_appendR)

lemma strip_ends:
  assumes "strip s \<noteq> []"
  shows "\<not> py_isspace (hd (strip s)) \<and> \<not> py_isspace (last (strip s))"
proof -
  let ?t = "dropWhile py_isspace s"
  let ?u = "dropWhile py_isspace (rev ?t)"
  have u: "?u \<noteq> []" using assms by (simp add: strip_def)
  have t: "?t \<noteq> []"
  proof
    assume a: "?t = []"
    have "?u = []" unfolding a by simp
    with u show False by contradiction
  qed
  have "last (strip s) = hd ?u" using u by (simp add: strip_def last_rev)
  moreover have "\<not> py_isspace (hd ?u)" using u by (rule hd_dropWhile)
  moreover have "hd (strip s) = last ?u" using u by (simp add: strip_def hd_rev)
  moreover have "last ?u = last (rev ?t)" using u by (rule last_dropWhile_same)
  moreover have "last (rev ?t) = hd ?t" using t by (simp add: last_rev)
  moreover have "\<not> py_isspace (hd ?t)" using t by (rule hd_dropWhile)
  ultimately show ?thesis by simp
qed

lemma strip_strip: "strip (strip s) = strip s"
proof (cases "strip s = []")
  case True
  have "strip [] = []" by (simp add: strip_def)
  with True show ?thesis by simp
next
  case False
  then show ?thesis using strip_ends[OF False] by (intro strip_fixed) auto
qed

text \<open>
  Claim C7, amended. When the item has no explicit gallery field and its trimmed main image
  URL is a non-empty text without line feed, then \<open>-\<close> or \<open>_\<close>, then a numeric suffix of
  one or two digits of value at least 1, then a dot and one of the extensions jpg, jpeg,
  png, webp in any case, the candidate list is that URL with the suffix replaced by each
  number from just above its value up to the cap 8, with the same separator and extension;
  the candidates are pairwise different and the main URL is not among them.
\<close>

theorem gallery_candidates_numbered:
  assumes main: "strip image_url = base @ [sep] @ num @ ''.'' @ ext"
    and base: "base \<noteq> []" "CHR 0x0A \<notin> set base"
    and sep: "sep = CHR ''-'' \<or> sep = CHR ''_''"
    and num: "length num = 1 \<or> length num = 2" "\<forall>c \<in> set num. is_digit c"
      "1 \<le> int_of_digits num"
    and ext: "map ascii_lower ext \<in> set image_exts"
  shows "gallery_candidates [] image_url = suffix_increments base sep num ext 8
         \<and> distinct (gallery_candidates [] image_url)
         \<and> strip image_url \<notin> set (gallery_candidates [] image_url)"
proof -
  let ?main = "strip image_url"
  let ?g = "\<lambda>i. base @ [sep] @ show_nat i @ ''.'' @ ext"
  let ?us = "map ?g [int_of_digits num + 1..<9]"
  have mne: "?main \<noteq> []" using main by simp
  have "regex_match ?main = Some (base, Some sep, Some num, ext)"
    using regex_match_numbered[OF base sep num(1,2) ext] by (simp only: main)
  then have rm: "regex_match (strip ?main) = Some (base, Some sep, Some num, ext)"
    by (simp only: strip_strip)
  have der: "derive_numbered_urls ?main 8 = ?us"
    using mne rm num(3) by (simp add: derive_numbered_urls_def Let_def)
  have hd_ok: "\<not> py_isspace (hd base)"
    using strip_ends[OF mne] base(1) main by (cases base) auto
  have extne: "ext \<noteq> []" using ext by (rule ext_nonempty)
  have last_ok: "\<not> py_isspace (last ext)"
    using ext_no_space[OF ext] extne by simp
  have fixed: "strip (?g i) = ?g i \<and> ?g i \<noteq> [] \<and> ?g i \<noteq> ?main" if "int_of_digits num < i" for i
  proof -
    have "hd (?g i) = hd base" using base(1) by (cases base) auto
    moreover have "last (?g i) = last ext" using extne by simp
    ultimately have "strip (?g i) = ?g i" using hd_ok last_ok base(1) by (intro strip_fixed) auto
    moreover have "?g i \<noteq> ?main"
    proof
      assume "?g i = ?main"
      then have "show_nat i = num" using main by simp
      then have "int_of_digits num = i" using int_of_digits_show_nat by blast
      with that show False by simp
    qed
    ultimately show ?thesis using base(1) by simp
  qed
  have inj: "inj ?g" using show_nat_inj by (auto simp: inj_on_def)
  have dist: "distinct ?us" using inj by (simp add: distinct_map inj_on_def)
  have "foldl (clean_step ?main) [] ?us = [] @ ?us"
    using fixed dist by (intro clean_fold_keeps) auto
  then have res: "gallery_candidates [] image_url = ?us"
    using mne der by (simp add: gallery_candidates_def Let_def)
  have "?main \<notin> set ?us"
  proof
    assume "?main \<in> set ?us"
    then obtain i where i: "i \<in> set [int_of_digits num + 1..<9]" "?main = ?g i"
      by (auto simp only: set_map image_iff)
    from i(1) have "int_of_digits num < i" by simp
    from fixed[OF this] i(2) show False by simp
  qed
  then show ?thesis using res dist by (simp add: suffix_increments_def)
qed

theorem gallery_candidates_numbered_witness:
  "gallery_candidates [] ''sku-1.jpg''
     = [''sku-2.jpg'', ''sku-3.jpg'', ''sku-4.jpg'', ''sku-5.jpg'', ''sku-6.jpg'',
        ''sku-7.jpg'', ''sku-8.jpg'']
   \<and> ''sku-1.jpg'' \<notin> set (gallery_candidates [] ''sku-1.jpg'')"
proof -
  have s: "strip ''sku-1.jpg'' = ''sku'' @ [CHR ''-''] @ ''1'' @ ''.'' @ ''jpg''" by code_simp
  have n: "int_of_digits ''1'' = 1" by code_simp
  have d: "\<forall>c \<in> set ''1''. is_digit c" by (simp add: is_digit_def)
  have e: "map ascii_lower ''jpg'' \<in> set image_exts" by code_simp
  have m: "suffix_increments ''sku'' (CHR ''-'') ''1'' ''jpg'' 8
        = [''sku-2.jpg'', ''sku-3.jpg'', ''sku-4.jpg'', ''sku-5.jpg'', ''sku-6.jpg'',
           ''sku-7.jpg'', ''sku-8.jpg'']" by code_simp
  have "strip ''sku-1.jpg'' = ''sku-1.jpg''" by code_simp
  with gallery_candidates_numbered[OF s _ _ _ _ d _ e] n m show ?thesis by simp
qed

text \<open>
  Claim C7 as stated fails for a suffix of three digits and for the suffix 0: the pattern
  takes at most two digits, so \<open>sku-100.jpg\<close> is read as base \<open>sku-1\<close> with suffix \<open>00\<close> and
  no separator, and a suffix of value 0 starts the sequence at 2, not at 1.
\<close>

theorem gallery_candidates_counterexample:
  "gallery_candidates [] ''sku-100.jpg''
     = [''sku-1_2.jpg'', ''sku-1_3.jpg'', ''sku-1_4.jpg'', ''sku-1_5.jpg'', ''sku-1_6.jpg'',
        ''sku-1_7.jpg'', ''sku-1_8.jpg'']
   \<and> gallery_candidates [] ''sku-100.jpg'' \<noteq> suffix_increments ''sku'' (CHR ''-'') ''100'' ''jpg'' 8
   \<and> gallery_candidates [] ''sku-0.jpg''
     = [''sku-2.jpg'', ''sku-3.jpg'', ''sku-4.jpg'', ''sku-5.jpg'', ''sku-6.jpg'',
        ''sku-7.jpg'', ''sku-8.jpg'']
   \<and> gallery_candidates [] ''sku-0.jpg'' \<noteq> suffix_increments ''sku'' (CHR ''-'') ''0'' ''jpg'' 8"
  by code_simp

section \<open>Properties of the cost write rule\<close>






section \<open>Properties of the run loop\<close>

lemma failures_Cons:
  "failures ((raw, r) # os) = (case r of Inl err \<Rightarrow> [(raw, err)] | Inr x \<Rightarrow> []) @ failures os"
  by (simp add: failures_def)

lemma successes_Cons:
  "successes flag ((raw, r) # os) =
     (case r of Inl err \<Rightarrow> 0 | Inr (tid, wc) \<Rightarrow> if wc = flag then 1 else 0) + successes flag os"
  by (auto simp: successes_def split: sum.splits)

lemma import_fold:
  "foldl (import_step e cfg) (st, c) items =
     (fst (foldl (import_step e cfg) (st, c) items),
      \<lparr> n_created = n_created c + successes True (outcomes e cfg st items),
        n_updated = n_updated c + successes False (outcomes e cfg st items),
        n_skipped = n_skipped c + length (failures (outcomes e cfg st items)),
        details = details c @ map (\<lambda>(raw, err). error_line (e_lib e) raw err)
                               (failures (outcomes e cfg st items)) \<rparr>)"
proof (induction items arbitrary: st c)
  case Nil
  then show ?case by (simp add: successes_def failures_def)
next
  case (Cons raw rest)
  obtain st' r where u: "upsert_product e cfg st raw = (st', r)" by (cases "upsert_product e cfg st raw")
  show ?case
  proof (cases r)
    case (Inl err)
    let ?c' = "c\<lparr> n_skipped := n_skipped c + 1, details := details c @ [error_line (e_lib e) raw err] \<rparr>"
    have s: "import_step e cfg (st, c) raw = (st', ?c')"
      by (simp add: import_step_def u Inl)
    show ?thesis
      by (simp only: foldl_Cons s) (subst Cons.IH, simp add: u Inl failures_Cons successes_Cons)
  next
    case (Inr p)
    obtain tid wc where p: "p = (tid, wc)" by (cases p)
    let ?c' = "if wc then c\<lparr> n_created := n_created c + 1 \<rparr> else c\<lparr> n_updated := n_updated c + 1 \<rparr>"
    have s: "import_step e cfg (st, c) raw = (st', ?c')"
      by (simp add: import_step_def u Inr p)
    show ?thesis
      by (simp only: foldl_Cons s) (subst Cons.IH, simp add: u Inr p failures_Cons successes_Cons)
  qed
qed


lemma map_fst_outcomes: "map fst (outcomes e cfg st items) = items"
  by (induction items arbitrary: st) simp_all

lemma outcomes_partition:
  "successes True os + successes False os + length (failures os) = length os"
proof (induction os)
  case Nil
  then show ?case by (simp add: successes_def failures_def)
next
  case (Cons x os)
  obtain raw r where x: "x = (raw, r)" by (cases x)
  show ?case using Cons
    by (auto simp: x failures_Cons successes_Cons split: sum.splits)
qed

lemma fst_import_fold:
  "fst (foldl (import_step e cfg) (st, c) items) = fst (foldl (import_step e cfg) (st, c') items)"
proof (induction items arbitrary: st c c')
  case Nil
  then show ?case by simp
next
  case (Cons raw rest)
  have "fst (import_step e cfg (st, c) raw) = fst (import_step e cfg (st, c') raw)"
    by (auto simp: import_step_def split: prod.splits sum.splits)
  then obtain s1 c1 c2 where
    a: "import_step e cfg (st, c) raw = (s1, c1)" and b: "import_step e cfg (st, c') raw = (s1, c2)"
    by (metis prod.collapse)
  show ?case by (simp only: foldl_Cons a b) (rule Cons.IH)
qed

lemma import_loop_eq:
  "import_loop e cfg st items =
     (fst (import_loop e cfg st items),
      \<lparr> n_created = successes True (outcomes e cfg st items),
        n_updated = successes False (outcomes e cfg st items),
        n_skipped = length (failures (outcomes e cfg st items)),
        details = map (\<lambda>(raw, err). error_line (e_lib e) raw err) (failures (outcomes e cfg st items)) \<rparr>)"
  unfolding import_loop_def by (subst import_fold) simp

lemma import_loop_failed_head:
  assumes u: "upsert_product e cfg st raw = (st', Inl err)"
  shows "import_loop e cfg st (raw # rest) =
           (fst (import_loop e cfg st' rest),
            (snd (import_loop e cfg st' rest))
              \<lparr> n_skipped := n_skipped (snd (import_loop e cfg st' rest)) + 1,
                details := error_line (e_lib e) raw err # details (snd (import_loop e cfg st' rest)) \<rparr>)"
proof -
  let ?c0 = "\<lparr> n_created = 0, n_updated = 0, n_skipped = 0, details = [] \<rparr>"
  let ?c1 = "?c0\<lparr> n_skipped := n_skipped ?c0 + 1, details := details ?c0 @ [error_line (e_lib e) raw err] \<rparr>"
  have s: "import_step e cfg (st, ?c0) raw = (st', ?c1)"
    by (simp add: import_step_def u)
  have l: "import_loop e cfg st (raw # rest) = foldl (import_step e cfg) (st', ?c1) rest"
    by (simp only: import_loop_def foldl_Cons s)
  have f: "fst (foldl (import_step e cfg) (st', ?c1) rest) = fst (import_loop e cfg st' rest)"
    unfolding import_loop_def by (rule fst_import_fold)
  let ?os = "outcomes e cfg st' rest"
  have A: "foldl (import_step e cfg) (st', ?c1) rest =
     (fst (foldl (import_step e cfg) (st', ?c1) rest),
      \<lparr> n_created = n_created ?c1 + successes True ?os,
        n_updated = n_updated ?c1 + successes False ?os,
        n_skipped = n_skipped ?c1 + length (failures ?os),
        details = details ?c1 @ map (\<lambda>(raw, err). error_line (e_lib e) raw err) (failures ?os) \<rparr>)"
    by (rule import_fold)
  have B: "snd (import_loop e cfg st' rest) =
      \<lparr> n_created = successes True ?os, n_updated = successes False ?os,
        n_skipped = length (failures ?os),
        details = map (\<lambda>(raw, err). error_line (e_lib e) raw err) (failures ?os) \<rparr>"
    by (metis import_loop_eq snd_conv)
  show ?thesis
    unfolding l using f by (subst A) (simp add: B)
qed

lemma error_line_eq:
  "error_line lib raw err =
     ''ERROR ''
       @ py_str lib (case por (raw ''sku'') (por (raw ''default_code'') (por (raw ''barcode'') (Some (Str ''N/A'')))) of
                       Some k \<Rightarrow> k
                     | None \<Rightarrow> Str ''N/A'')
       @ '': '' @ error_text lib err"
  by (simp add: error_line_def Let_def)

lemma join_lines_Cons: "ds \<noteq> [] \<Longrightarrow> join_lines (l # ds) = l @ [CHR 0x0A] @ join_lines ds"
  by (cases ds) simp_all

text \<open>
  Claim C9. For every list of items, every item has an outcome, each computed at the store
  that the items before it left: the counters of created, updated and failed items are
  the numbers of the three kinds of outcome and add up to the number of items. A failed
  item adds one to the failed count and one detail line: \<open>ERROR\<close>, a blank, the first
  non-empty of its sku, default_code and barcode (or \<open>N/A\<close>), a colon and a blank, and the
  message of the exception; the loop goes on with the next item at the store that the
  failed call left. The text written is the summary line with the three counts, followed
  by the first 200 detail lines, each after a line feed; it holds the detail lines of the
  first 200 failed items and of no other.
\<close>

theorem run_isolates_failures:
  "map fst (outcomes e cfg st items) = items
   \<and> n_created (snd (import_loop e cfg st items)) = successes True (outcomes e cfg st items)
   \<and> n_updated (snd (import_loop e cfg st items)) = successes False (outcomes e cfg st items)
   \<and> n_skipped (snd (import_loop e cfg st items)) = length (failures (outcomes e cfg st items))
   \<and> n_created (snd (import_loop e cfg st items)) + n_updated (snd (import_loop e cfg st items))
        + n_skipped (snd (import_loop e cfg st items)) = length items
   \<and> details (snd (import_loop e cfg st items))
        = map (\<lambda>(raw, err).
                 ''ERROR ''
                   @ py_str (e_lib e)
                       (case por (raw ''sku'') (por (raw ''default_code'')
                                (por (raw ''barcode'') (Some (Str ''N/A'')))) of
                          Some k \<Rightarrow> k
                        | None \<Rightarrow> Str ''N/A'')
                   @ '': '' @ error_text (e_lib e) err)
            (failures (outcomes e cfg st items))
   \<and> (upsert_product e cfg st raw = (st', Inl err) \<longrightarrow>
        import_loop e cfg st (raw # rest) =
           (fst (import_loop e cfg st' rest),
            (snd (import_loop e cfg st' rest))
              \<lparr> n_skipped := n_skipped (snd (import_loop e cfg st' rest)) + 1,
                details :=
                  (''ERROR ''
                     @ py_str (e_lib e)
                         (case por (raw ''sku'') (por (raw ''default_code'')
                                  (por (raw ''barcode'') (Some (Str ''N/A'')))) of
                            Some k \<Rightarrow> k
                          | None \<Rightarrow> Str ''N/A'')
                     @ '': '' @ error_text (e_lib e) err)
                  # details (snd (import_loop e cfg st' rest)) \<rparr>))
   \<and> snd (base_action_run_import e cfg st items)
        = join_lines
            (msg_line (length items) (successes True (outcomes e cfg st items))
               (successes False (outcomes e cfg st items)) (length (failures (outcomes e cfg st items)))
             # take 200 (details (snd (import_loop e cfg st items))))
   \<and> length (take 200 (details (snd (import_loop e cfg st items))))
        = min 200 (length (failures (outcomes e cfg st items)))"
proof -
  let ?os = "outcomes e cfg st items"
  let ?c = "snd (import_loop e cfg st items)"
  let ?line = "\<lambda>(raw, err).
                 ''ERROR ''
                   @ py_str (e_lib e)
                       (case por (raw ''sku'') (por (raw ''default_code'')
                                (por (raw ''barcode'') (Some (Str ''N/A'')))) of
                          Some k \<Rightarrow> k
                        | None \<Rightarrow> Str ''N/A'')
                   @ '': '' @ error_text (e_lib e) err"
  have le: "(\<lambda>(raw, err). error_line (e_lib e) raw err) = ?line"
    by (simp add: fun_eq_iff error_line_eq)
  have c: "?c = \<lparr> n_created = successes True ?os, n_updated = successes False ?os,
        n_skipped = length (failures ?os),
        details = map (\<lambda>(raw, err). error_line (e_lib e) raw err) (failures ?os) \<rparr>"
    by (metis import_loop_eq snd_conv)
  have len: "length ?os = length items" by (metis map_fst_outcomes length_map)
  have p1: "map fst ?os = items" by (rule map_fst_outcomes)
  have p2: "n_created ?c = successes True ?os" "n_updated ?c = successes False ?os"
    "n_skipped ?c = length (failures ?os)"
    by (simp_all add: c)
  have p2d: "details ?c = map ?line (failures ?os)"
    using c le by simp
  have p3: "n_created ?c + n_updated ?c + n_skipped ?c = length items"
    using outcomes_partition[of ?os] len by (simp add: p2)
  have p4: "snd (base_action_run_import e cfg st items)
        = join_lines
            (msg_line (length items) (successes True ?os) (successes False ?os) (length (failures ?os))
             # take 200 (details ?c))"
  proof (cases "details ?c = []")
    case True
    then show ?thesis
      by (simp add: base_action_run_import_def result_text_def Let_def p2)
  next
    case False
    then show ?thesis
      by (simp add: base_action_run_import_def result_text_def Let_def p2)
  qed
  have p5: "length (take 200 (details ?c)) = min 200 (length (failures ?os))"
    by (simp add: p2d min.commute)
  have p6: "upsert_product e cfg st raw = (st', Inl err) \<longrightarrow>
        import_loop e cfg st (raw # rest) =
           (fst (import_loop e cfg st' rest),
            (snd (import_loop e cfg st' rest))
              \<lparr> n_skipped := n_skipped (snd (import_loop e cfg st' rest)) + 1,
                details := ?line (raw, err) # details (snd (import_loop e cfg st' rest)) \<rparr>)"
    using import_loop_failed_head[of e cfg st raw st' err rest] by (simp add: error_line_eq)
  show ?thesis
    using p1 p2 p2d p3 p4 p5 p6 by (simp only: prod.case)
qed

text \<open>
  A run over an item without a name, an item whose main image the network does not serve
  and a good item: the first fails before anything is written, the second after its record
  is written, and the third is created.
\<close>

theorem run_isolates_failures_witness:
  "upsert_product env0 cfg0 store_a [''sku'' \<mapsto> Str ''B'']
       = (store_a, Inl (UserError ''Falta 'name' en el item''))
   \<and> snd (upsert_product env0 cfg0 store_a
            [''name'' \<mapsto> Str ''Delta'', ''sku'' \<mapsto> Str ''D'', ''image_url'' \<mapsto> Str ''http://x/d.jpg''])
       = Inl (UnboundLocalError ''_logger'')
   \<and> n_skipped (snd (import_loop env0 cfg0 store_a
          [[''sku'' \<mapsto> Str ''B''], [''name'' \<mapsto> Str ''Gamma'', ''sku'' \<mapsto> Str ''C'']])) = 1
   \<and> n_created (snd (import_loop env0 cfg0 store_a
          [[''sku'' \<mapsto> Str ''B''], [''name'' \<mapsto> Str ''Gamma'', ''sku'' \<mapsto> Str ''C'']])) = 1
   \<and> details (snd (import_loop env0 cfg0 store_a
          [[''sku'' \<mapsto> Str ''B''], [''name'' \<mapsto> Str ''Gamma'', ''sku'' \<mapsto> Str ''C'']]))
       = [''ERROR B: Falta 'name' en el item'']
   \<and> snd (base_action_run_import env0 cfg0 store_a
            [[''sku'' \<mapsto> Str ''B''],
             [''name'' \<mapsto> Str ''Delta'', ''sku'' \<mapsto> Str ''D'', ''image_url'' \<mapsto> Str ''http://x/d.jpg''],
             [''name'' \<mapsto> Str ''Gamma'', ''sku'' \<mapsto> Str ''C'']])
       = ''Total: 3 | Creados: 1 | Actualizados: 0 | Fallidos: 2'' @ [CHR 0x0A]
           @ ''ERROR B: Falta 'name' en el item'' @ [CHR 0x0A]
           @ ''ERROR D: cannot access local variable '_logger' where it is not associated with a value''"
proof -
  let ?b = "[''sku'' \<mapsto> Str ''B'']"
  let ?c = "[''name'' \<mapsto> Str ''Gamma'', ''sku'' \<mapsto> Str ''C'']"
  let ?d = "[''name'' \<mapsto> Str ''Delta'', ''sku'' \<mapsto> Str ''D'', ''image_url'' \<mapsto> Str ''http://x/d.jpg'']"
  have u: "upsert_product env0 cfg0 store_a ?b = (store_a, Inl (UserError ''Falta 'name' en el item''))"
    by code_simp
  have ud: "snd (upsert_product env0 cfg0 store_a ?d) = Inl (UnboundLocalError ''_logger'')"
    by code_simp
  have r: "n_created (snd (import_loop env0 cfg0 store_a [?c])) = 1"
    "n_skipped (snd (import_loop env0 cfg0 store_a [?c])) = 0"
    "details (snd (import_loop env0 cfg0 store_a [?c])) = []" by code_simp+
  have k: "(case por (?b ''sku'') (por (?b ''default_code'') (por (?b ''barcode'') (Some (Str ''N/A'')))) of
              Some k \<Rightarrow> k | None \<Rightarrow> Str ''N/A'') = Str ''B''"
    by (simp add: por_def truthy_def)
  from run_isolates_failures[of env0 cfg0 store_a "[]" ?b store_a "UserError ''Falta 'name' en el item''" "[?c]"] u
  have "import_loop env0 cfg0 store_a [?b, ?c] =
           (fst (import_loop env0 cfg0 store_a [?c]),
            (snd (import_loop env0 cfg0 store_a [?c]))
              \<lparr> n_skipped := n_skipped (snd (import_loop env0 cfg0 store_a [?c])) + 1,
                details :=
                  (''ERROR ''
                     @ py_str (e_lib env0)
                         (case por (?b ''sku'') (por (?b ''default_code'')
                                  (por (?b ''barcode'') (Some (Str ''N/A'')))) of
                            Some k \<Rightarrow> k
                          | None \<Rightarrow> Str ''N/A'')
                     @ '': '' @ error_text (e_lib env0) (UserError ''Falta 'name' en el item''))
                  # details (snd (import_loop env0 cfg0 store_a [?c])) \<rparr>)"
    by blast
  then have l: "import_loop env0 cfg0 store_a [?b, ?c] =
           (fst (import_loop env0 cfg0 store_a [?c]),
            (snd (import_loop env0 cfg0 store_a [?c]))
              \<lparr> n_skipped := n_skipped (snd (import_loop env0 cfg0 store_a [?c])) + 1,
                details :=
                  (''ERROR '' @ ''B'' @ '': '' @ ''Falta 'name' en el item'')
                  # details (snd (import_loop env0 cfg0 store_a [?c])) \<rparr>)"
    by (simp only: k) (simp add: py_str_def error_text_def)
  have k1: "n_skipped (snd (import_loop env0 cfg0 store_a [?b, ?c])) = 1"
    "n_created (snd (import_loop env0 cfg0 store_a [?b, ?c])) = 1"
    "details (snd (import_loop env0 cfg0 store_a [?b, ?c])) = [''ERROR B: Falta 'name' en el item'']"
    unfolding l using r by simp_all
  have t: "snd (base_action_run_import env0 cfg0 store_a [?b, ?d, ?c])
       = ''Total: 3 | Creados: 1 | Actualizados: 0 | Fallidos: 2'' @ [CHR 0x0A]
           @ ''ERROR B: Falta 'name' en el item'' @ [CHR 0x0A]
           @ ''ERROR D: cannot access local variable '_logger' where it is not associated with a value''"
    by code_simp
  show ?thesis using u ud k1 t by simp
qed
section \<open>Properties of the flat-category mapping\<close>

lemma find_None_iff_not_ex: "find P xs = None \<longleftrightarrow> \<not> list_ex P xs"
  by (auto simp: find_None_iff list_ex_iff)

lemma mm_find_map_no_hit:
  "no_hit lib mapping (mm_norm_key lib src) \<Longrightarrow> mm_find_map lib mapping src = Inr None"
  by (auto simp: no_hit_def mm_find_map_def Let_def find_None_iff_not_ex[symmetric])

lemma mm_map_item_no_hit:
  "no_hit lib mapping (mm_norm_key lib (category_or_empty it)) \<Longrightarrow> mm_map_item lib mapping it = Inr it"
  by (simp add: mm_map_item_def mm_find_map_no_hit)

lemma mm_map_items_shape:
  "mm_map_items lib mapping items = Inr items' \<Longrightarrow>
     length items' = length items \<and>
     (\<forall>i < length items. mm_map_item lib mapping (items ! i) = Inr (items' ! i))"
proof (induction items arbitrary: items')
  case Nil
  then show ?case by simp
next
  case (Cons it its)
  from Cons.prems obtain it' its' where
    a: "mm_map_item lib mapping it = Inr it'" and
    b: "mm_map_items lib mapping its = Inr its'" and
    c: "items' = it' # its'"
    by (auto split: sum.splits)
  from Cons.IH[OF b] a c show ?case
    by (auto simp: nth_Cons split: nat.splits)
qed


lemma mm_exact_hit:
  assumes "map_of mapping (mm_norm_key lib (category_or_empty it)) = Some v" "v \<noteq> []"
  shows "mm_map_item lib mapping it = Inr (it(''category'' \<mapsto> Str v, ''public_category'' \<mapsto> Str v))"
proof -
  have "mapping \<noteq> []" using assms(1) by auto
  then have "mm_find_map lib mapping (category_or_empty it) = Inr (Some v)"
    using assms(1) by (simp add: mm_find_map_def Let_def)
  then show ?thesis using assms(2) by (simp add: mm_map_item_def)
qed

lemma mm_affix_hit:
  assumes "map_of mapping (mm_norm_key lib (category_or_empty it)) = None"
    and "find (\<lambda>k. prefix k (mm_norm_key lib (category_or_empty it))
                  \<or> suffix k (mm_norm_key lib (category_or_empty it))
                  \<or> prefix (mm_norm_key lib (category_or_empty it)) k) (map fst mapping) = Some k"
    and "map_of mapping k = Some v" "v \<noteq> []"
  shows "mm_map_item lib mapping it = Inr (it(''category'' \<mapsto> Str v, ''public_category'' \<mapsto> Str v))"
proof -
  have "mapping \<noteq> []" using assms(3) by auto
  then have "mm_find_map lib mapping (category_or_empty it) = Inr (Some v)"
    using assms(1,2,3) by (simp add: mm_find_map_def Let_def)
  then show ?thesis using assms(4) by (simp add: mm_map_item_def)
qed

lemma mm_approx_hit:
  assumes "map_of mapping (mm_norm_key lib (category_or_empty it)) = None"
    and "find (\<lambda>k. prefix k (mm_norm_key lib (category_or_empty it))
                  \<or> suffix k (mm_norm_key lib (category_or_empty it))
                  \<or> prefix (mm_norm_key lib (category_or_empty it)) k) (map fst mapping) = None"
    and "close_matches lib (mm_norm_key lib (category_or_empty it)) (map fst mapping) = c # cs"
    and "map_of mapping c = Some v" "v \<noteq> []"
  shows "mm_map_item lib mapping it = Inr (it(''category'' \<mapsto> Str v, ''public_category'' \<mapsto> Str v))"
proof -
  have "mapping \<noteq> []" using assms(4) by auto
  then have "mm_find_map lib mapping (category_or_empty it) = Inr (Some v)"
    using assms(1,2,3,4) by (simp add: mm_find_map_def Let_def)
  then show ?thesis using assms(5) by (simp add: mm_map_item_def)
qed

lemma mm_empty_key_hit:
  assumes "mm_norm_key lib (category_or_empty it) = []" "k \<noteq> []" "map_of rest [] = None" "v \<noteq> []"
  shows "mm_map_item lib ((k, v) # rest) it = Inr (it(''category'' \<mapsto> Str v, ''public_category'' \<mapsto> Str v))"
proof -
  have "mm_find_map lib ((k, v) # rest) (category_or_empty it) = Inr (Some v)"
    using assms(1,2,3) by (simp add: mm_find_map_def Let_def)
  then show ?thesis using assms(4) by (simp add: mm_map_item_def)
qed

text \<open>
  Claim C10, amended. In the vendor adapter an item with no hit (an empty or unavailable
  table; or no exact normalised match, no key that is a prefix or a suffix of the
  normalised text or has it as a prefix, and no approximate match) is returned unchanged,
  category text included, at the same position of the list. The first hit in the order
  exact, prefix or suffix, approximate rewrites the category (to a destination that is not
  empty): an exact match before any prefix, suffix or approximate match is looked at; the
  first key of the table with a prefix or suffix match before any approximate one; the
  first approximate match when neither of the former exists. The empty text is a prefix
  of every key, so an item whose normalised category text is empty takes the destination
  of the first row. The wrapper looks for the exact normalised match only: with a
  non-empty table it returns every item, the unmatched ones unchanged. What the wrapper
  does with an empty table is left out.
\<close>

theorem category_mapping_pass_through:
  "infortisa_get_items_mapped lib [] items = Inr items
   \<and> (no_hit lib mapping (mm_norm_key lib (category_or_empty it))
        \<longrightarrow> mm_map_item lib mapping it = Inr it)
   \<and> (infortisa_get_items_mapped lib mapping items = Inr items'
        \<longrightarrow> length items' = length items
            \<and> (\<forall>i < length items.
                  no_hit lib mapping (mm_norm_key lib (category_or_empty (items ! i)))
                  \<longrightarrow> items' ! i = items ! i))
   \<and> (map_of mapping (mm_norm_key lib (category_or_empty it)) = Some v \<and> v \<noteq> []
        \<longrightarrow> mm_map_item lib mapping it
              = Inr (it(''category'' \<mapsto> Str v, ''public_category'' \<mapsto> Str v)))
   \<and> (map_of mapping (mm_norm_key lib (category_or_empty it)) = None
        \<and> find (\<lambda>k. prefix k (mm_norm_key lib (category_or_empty it))
                      \<or> suffix k (mm_norm_key lib (category_or_empty it))
                      \<or> prefix (mm_norm_key lib (category_or_empty it)) k) (map fst mapping) = Some k
        \<and> map_of mapping k = Some w \<and> w \<noteq> []
        \<longrightarrow> mm_map_item lib mapping it
              = Inr (it(''category'' \<mapsto> Str w, ''public_category'' \<mapsto> Str w)))
   \<and> (map_of mapping (mm_norm_key lib (category_or_empty it)) = None
        \<and> find (\<lambda>k. prefix k (mm_norm_key lib (category_or_empty it))
                      \<or> suffix k (mm_norm_key lib (category_or_empty it))
                      \<or> prefix (mm_norm_key lib (category_or_empty it)) k) (map fst mapping) = None
        \<and> close_matches lib (mm_norm_key lib (category_or_empty it)) (map fst mapping) = c # cs
        \<and> map_of mapping c = Some u \<and> u \<noteq> []
        \<longrightarrow> mm_map_item lib mapping it
              = Inr (it(''category'' \<mapsto> Str u, ''public_category'' \<mapsto> Str u)))
   \<and> (mm_norm_key lib (category_or_empty it) = [] \<and> k1 \<noteq> [] \<and> map_of rest [] = None \<and> w1 \<noteq> []
        \<longrightarrow> mm_map_item lib ((k1, w1) # rest) it
              = Inr (it(''category'' \<mapsto> Str w1, ''public_category'' \<mapsto> Str w1)))
   \<and> (cmap \<noteq> []
        \<longrightarrow> wrapper_get_items_mapped lib cmap items = Inr (map (wrapper_map_item lib cmap) items))
   \<and> (map_of cmap (wrapper_norm_key lib (category_or_empty it)) = None
        \<longrightarrow> wrapper_map_item lib cmap it = it)"
proof (intro conjI impI allI)
  show "infortisa_get_items_mapped lib [] items = Inr items"
    by (simp add: infortisa_get_items_mapped_def)
  show "mm_map_item lib mapping it = Inr it"
    if "no_hit lib mapping (mm_norm_key lib (category_or_empty it))"
    using that by (rule mm_map_item_no_hit)
  show "mm_map_item lib mapping it = Inr (it(''category'' \<mapsto> Str v, ''public_category'' \<mapsto> Str v))"
    if "map_of mapping (mm_norm_key lib (category_or_empty it)) = Some v \<and> v \<noteq> []"
    using that mm_exact_hit by blast
  show "mm_map_item lib mapping it = Inr (it(''category'' \<mapsto> Str w, ''public_category'' \<mapsto> Str w))"
    if "map_of mapping (mm_norm_key lib (category_or_empty it)) = None
        \<and> find (\<lambda>k. prefix k (mm_norm_key lib (category_or_empty it))
                      \<or> suffix k (mm_norm_key lib (category_or_empty it))
                      \<or> prefix (mm_norm_key lib (category_or_empty it)) k) (map fst mapping) = Some k
        \<and> map_of mapping k = Some w \<and> w \<noteq> []"
    using that mm_affix_hit by blast
  show "mm_map_item lib mapping it = Inr (it(''category'' \<mapsto> Str u, ''public_category'' \<mapsto> Str u))"
    if "map_of mapping (mm_norm_key lib (category_or_empty it)) = None
        \<and> find (\<lambda>k. prefix k (mm_norm_key lib (category_or_empty it))
                      \<or> suffix k (mm_norm_key lib (category_or_empty it))
                      \<or> prefix (mm_norm_key lib (category_or_empty it)) k) (map fst mapping) = None
        \<and> close_matches lib (mm_norm_key lib (category_or_empty it)) (map fst mapping) = c # cs
        \<and> map_of mapping c = Some u \<and> u \<noteq> []"
    using that mm_approx_hit by blast
  show "mm_map_item lib ((k1, w1) # rest) it
              = Inr (it(''category'' \<mapsto> Str w1, ''public_category'' \<mapsto> Str w1))"
    if "mm_norm_key lib (category_or_empty it) = [] \<and> k1 \<noteq> [] \<and> map_of rest [] = None \<and> w1 \<noteq> []"
    using that mm_empty_key_hit by blast
  show "wrapper_get_items_mapped lib cmap items = Inr (map (wrapper_map_item lib cmap) items)"
    if "cmap \<noteq> []"
    using that by (simp add: wrapper_get_items_mapped_def)
  show "wrapper_map_item lib cmap it = it"
    if "map_of cmap (wrapper_norm_key lib (category_or_empty it)) = None"
    using that by (simp add: wrapper_map_item_def)
next
  assume r: "infortisa_get_items_mapped lib mapping items = Inr items'"
  show "length items' = length items"
  proof (cases "mapping = []")
    case True
    then show ?thesis using r by (simp add: infortisa_get_items_mapped_def)
  next
    case False
    then show ?thesis using r mm_map_items_shape by (simp add: infortisa_get_items_mapped_def)
  qed
next
  fix i
  assume r: "infortisa_get_items_mapped lib mapping items = Inr items'"
    and i: "i < length items"
    and n: "no_hit lib mapping (mm_norm_key lib (category_or_empty (items ! i)))"
  show "items' ! i = items ! i"
  proof (cases "mapping = []")
    case True
    then show ?thesis using r by (simp add: infortisa_get_items_mapped_def)
  next
    case False
    then have "mm_map_items lib mapping items = Inr items'"
      using r by (simp add: infortisa_get_items_mapped_def)
    then have "mm_map_item lib mapping (items ! i) = Inr (items' ! i)"
      using mm_map_items_shape i by blast
    then show ?thesis using mm_map_item_no_hit[OF n] by simp
  qed
qed

text \<open>
  A table with two rows: \<open>Cables\<close> has no hit and passes; \<open>TV & Video\<close> is the first key
  after normalisation; \<open>Impresoras Laser\<close> has only an approximate match, the second key;
  an item without category takes the destination of the first row.
\<close>

theorem category_mapping_pass_through_witness:
  "no_hit ascii_lib [(''tv y video'', ''Television''), (''impresora laser'', ''Impresoras'')]
      (mm_norm_key ascii_lib (category_or_empty [''category'' \<mapsto> Str ''Cables'']))
   \<and> mm_map_item ascii_lib [(''tv y video'', ''Television''), (''impresora laser'', ''Impresoras'')]
         [''category'' \<mapsto> Str ''Cables'']
       = Inr [''category'' \<mapsto> Str ''Cables'']
   \<and> mm_map_item ascii_lib [(''tv y video'', ''Television''), (''impresora laser'', ''Impresoras'')]
         [''category'' \<mapsto> Str ''TV & Video'']
       = Inr [''category'' \<mapsto> Str ''Television'', ''public_category'' \<mapsto> Str ''Television'']
   \<and> close_matches ascii_lib ''impresoras laser'' [''tv y video'', ''impresora laser''] = [''impresora laser'']
   \<and> mm_map_item ascii_lib [(''tv y video'', ''Television''), (''impresora laser'', ''Impresoras'')]
         [''category'' \<mapsto> Str ''Impresoras Laser'']
       = Inr [''category'' \<mapsto> Str ''Impresoras'', ''public_category'' \<mapsto> Str ''Impresoras'']
   \<and> mm_map_item ascii_lib [(''tv y video'', ''Television''), (''impresora laser'', ''Impresoras'')]
         [''name'' \<mapsto> Str ''Cable'']
       = Inr [''name'' \<mapsto> Str ''Cable'', ''category'' \<mapsto> Str ''Television'',
              ''public_category'' \<mapsto> Str ''Television'']
   \<and> wrapper_get_items_mapped ascii_lib [(''tv & video'', ''Television'')] [[''category'' \<mapsto> Str ''Cables'']]
       = Inr [[''category'' \<mapsto> Str ''Cables'']]"
proof -
  let ?M = "[(''tv y video'', ''Television''), (''impresora laser'', ''Impresoras'')]"
  let ?W = "[(''tv & video'', ''Television'')]"
  let ?c = "[''category'' \<mapsto> Str ''Cables'']"
  let ?t = "[''category'' \<mapsto> Str ''TV & Video'']"
  let ?p = "[''category'' \<mapsto> Str ''Impresoras Laser'']"
  let ?n = "[''name'' \<mapsto> Str ''Cable'']"
  note T = category_mapping_pass_through
  have h: "no_hit ascii_lib ?M (mm_norm_key ascii_lib (category_or_empty ?c))" by code_simp
  have a: "mm_map_item ascii_lib ?M ?c = Inr ?c"
    using T[where lib=ascii_lib and mapping="?M" and it="?c"] h by blast
  have k: "map_of ?M (mm_norm_key ascii_lib (category_or_empty ?t)) = Some ''Television''
           \<and> ''Television'' \<noteq> []" by code_simp
  have b: "mm_map_item ascii_lib ?M ?t
           = Inr (?t(''category'' \<mapsto> Str ''Television'', ''public_category'' \<mapsto> Str ''Television''))"
    using T[where lib=ascii_lib and mapping="?M" and it="?t" and v="''Television''"] k by blast
  have cm: "close_matches ascii_lib ''impresoras laser'' [''tv y video'', ''impresora laser''] = [''impresora laser'']"
    by code_simp
  have q: "map_of ?M (mm_norm_key ascii_lib (category_or_empty ?p)) = None
        \<and> find (\<lambda>k. prefix k (mm_norm_key ascii_lib (category_or_empty ?p))
                      \<or> suffix k (mm_norm_key ascii_lib (category_or_empty ?p))
                      \<or> prefix (mm_norm_key ascii_lib (category_or_empty ?p)) k) (map fst ?M) = None
        \<and> close_matches ascii_lib (mm_norm_key ascii_lib (category_or_empty ?p)) (map fst ?M)
            = ''impresora laser'' # []
        \<and> map_of ?M ''impresora laser'' = Some ''Impresoras'' \<and> ''Impresoras'' \<noteq> []"
    by code_simp
  have d: "mm_map_item ascii_lib ?M ?p
           = Inr (?p(''category'' \<mapsto> Str ''Impresoras'', ''public_category'' \<mapsto> Str ''Impresoras''))"
    using T[where lib=ascii_lib and mapping="?M" and it="?p" and c="''impresora laser''" and cs="[]" and u="''Impresoras''"] q by blast
  have e0: "mm_norm_key ascii_lib (category_or_empty ?n) = [] \<and> ''tv y video'' \<noteq> []
           \<and> map_of [(''impresora laser'', ''Impresoras'')] [] = None \<and> ''Television'' \<noteq> []"
    by code_simp
  have e: "mm_map_item ascii_lib ?M ?n
           = Inr (?n(''category'' \<mapsto> Str ''Television'', ''public_category'' \<mapsto> Str ''Television''))"
    using T[where lib=ascii_lib and it="?n" and ?k1.0="''tv y video''"
               and rest="[(''impresora laser'', ''Impresoras'')]" and ?w1.0="''Television''"] e0
    by blast
  have w1: "wrapper_get_items_mapped ascii_lib ?W [?c] = Inr (map (wrapper_map_item ascii_lib ?W) [?c])"
    using T[where lib=ascii_lib and items="[?c]" and cmap="?W"] by blast
  have n: "map_of ?W (wrapper_norm_key ascii_lib (category_or_empty ?c)) = None" by code_simp
  have w2: "wrapper_map_item ascii_lib ?W ?c = ?c"
    using T[where lib=ascii_lib and it="?c" and cmap="?W"] n by blast
  show ?thesis using h a b cm d e w1 w2 by simp
qed

text \<open>
  Claim C10 as stated fails in the wrapper: with an empty mapping and one item the call
  raises \<open>NameError\<close> instead of returning the item with its category unchanged. In the
  adapter an item without a category text, which no key matches exactly, as a prefix or a
  suffix of it, or approximately, does not pass unchanged: it takes the category of the
  first row.
\<close>

theorem wrapper_empty_mapping_counterexample:
  "wrapper_get_items_mapped ascii_lib [] [[''category'' \<mapsto> Str ''Cables'']] = Inl NameError
   \<and> wrapper_get_items_mapped ascii_lib [] [[''category'' \<mapsto> Str ''Cables'']]
       \<noteq> Inr [[''category'' \<mapsto> Str ''Cables'']]
   \<and> map_of [(''tv y video'', ''Television'')] [] = None
   \<and> \<not> list_ex (\<lambda>k. prefix k [] \<or> suffix k []) (map fst [(''tv y video'', ''Television'')])
   \<and> close_matches ascii_lib [] (map fst [(''tv y video'', ''Television'')]) = []
   \<and> mm_map_item ascii_lib [(''tv y video'', ''Television'')] [''name'' \<mapsto> Str ''Cable'']
       = Inr [''name'' \<mapsto> Str ''Cable'', ''category'' \<mapsto> Str ''Television'',
              ''public_category'' \<mapsto> Str ''Television'']"
proof -
  have a: "wrapper_get_items_mapped ascii_lib [] [[''category'' \<mapsto> Str ''Cables'']] = Inl NameError"
    by (simp add: wrapper_get_items_mapped_def)
  have b: "map_of [(''tv y video'', ''Television'')] [] = None
     \<and> \<not> list_ex (\<lambda>k. prefix k [] \<or> suffix k []) (map fst [(''tv y video'', ''Television'')])
     \<and> close_matches ascii_lib [] (map fst [(''tv y video'', ''Television'')]) = []"
    by code_simp
  have k: "mm_norm_key ascii_lib (category_or_empty [''name'' \<mapsto> Str ''Cable'']) = []" by code_simp
  have c: "mm_map_item ascii_lib [(''tv y video'', ''Television'')] [''name'' \<mapsto> Str ''Cable'']
       = Inr ([''name'' \<mapsto> Str ''Cable''](''category'' \<mapsto> Str ''Television'',
              ''public_category'' \<mapsto> Str ''Television''))"
    by (rule mm_empty_key_hit[OF k]) simp_all
  show ?thesis using a b c by simp
qed
section \<open>The statistics overlay\<close>

text \<open>
  The summary line that the base method writes is read back by the pattern of the overlay
  with its four numbers, and it is the first line of the base text.
\<close>

lemma lit_prefix_append: "lit_prefix lit (lit @ r) = Some r"
  by (induction lit) simp_all

lemma is_digit_digit_char: "d < 10 \<Longrightarrow> is_digit (digit_char d)"
  by (simp add: is_digit_def digit_char_def)

lemma show_nat_digits: "\<forall>c\<in>set (show_nat n). is_digit c"
proof (induction n rule: show_nat.induct)
  case (1 n)
  show ?case
  proof (cases "n < 10")
    case True
    then show ?thesis by (subst show_nat.simps) (simp add: is_digit_digit_char)
  next
    case False
    then show ?thesis using 1 by (subst show_nat.simps) (simp add: is_digit_digit_char)
  qed
qed

lemma show_nat_nonempty: "show_nat n \<noteq> []"
  by (subst show_nat.simps) simp

lemma digit_not_space: "is_digit c \<Longrightarrow> \<not> py_isspace c"
  by (auto simp: is_digit_def py_isspace_def Let_def)

lemma digit_not_linebreak: "is_digit c \<Longrightarrow> \<not> is_linebreak c"
  by (auto simp: is_digit_def is_linebreak_def)

lemma dropWhile_space_show_nat: "dropWhile py_isspace (show_nat n @ r) = show_nat n @ r"
proof -
  obtain d ds where s: "show_nat n = d # ds" using show_nat_nonempty by (cases "show_nat n") auto
  then have "is_digit d" using show_nat_digits[of n] by simp
  then show ?thesis using s digit_not_space by simp
qed

lemma number_after_show:
  assumes "takeWhile is_digit r = []"
  shows "number_after lit (lit @ '' '' @ show_nat n @ r) = Some (n, r)"
proof -
  have sp: "py_isspace (CHR '' '')" by (simp add: py_isspace_def)
  have a: "dropWhile py_isspace ('' '' @ show_nat n @ r) = show_nat n @ r"
    using sp by (simp add: dropWhile_space_show_nat)
  have b: "takeWhile is_digit (show_nat n @ r) = show_nat n"
    using show_nat_digits assms by (simp add: takeWhile_append2)
  have "dropWhile is_digit r = r" using assms by (metis takeWhile_dropWhile_id append_Nil)
  then have c: "dropWhile is_digit (show_nat n @ r) = r"
    using show_nat_digits by (simp add: dropWhile_append2)
  show ?thesis
    by (simp only: number_after_def lit_prefix_append option.case a Let_def b c
          show_nat_nonempty if_False int_of_digits_show_nat)
qed

lemma bar_sep:
  assumes "r \<noteq> []" "\<not> py_isspace (hd r)"
  shows "bar ('' | '' @ r) = Some r"
proof -
  have sp: "py_isspace (CHR '' '')" "\<not> py_isspace (CHR ''|'')" by (simp_all add: py_isspace_def)
  have "dropWhile py_isspace r = r" using assms by (cases r) auto
  then show ?thesis using sp by (simp add: bar_def)
qed

lemma search_head: "f s = Some x \<Longrightarrow> search f s = Some x"
proof -
  assume a: "f s = Some x"
  have "0 < length s + 1" by simp
  then have "[0..<length s + 1] = 0 # [Suc 0..<length s + 1]" by (rule upt_conv_Cons)
  then show ?thesis using a by (simp add: search_def del: upt_Suc)
qed

lemma summary_at_msg_line: "summary_at (msg_line t c u f) = Some (t, c, u, f)"
proof -
  let ?r7 = "[] :: string"
  let ?r6 = "''Fallidos:'' @ '' '' @ show_nat f @ ?r7"
  let ?r5 = "'' | '' @ ?r6"
  let ?r4 = "''Actualizados:'' @ '' '' @ show_nat u @ ?r5"
  let ?r3 = "'' | '' @ ?r4"
  let ?r2 = "''Creados:'' @ '' '' @ show_nat c @ ?r3"
  let ?r1 = "'' | '' @ ?r2"
  have m: "msg_line t c u f = ''Total:'' @ '' '' @ show_nat t @ ?r1" by (simp add: msg_line_def)
  have nd: "\<not> is_digit (CHR '' '')" by (simp add: is_digit_def)
  have n1: "number_after ''Total:'' (''Total:'' @ '' '' @ show_nat t @ ?r1) = Some (t, ?r1)"
    using nd by (intro number_after_show) simp
  have n2: "number_after ''Creados:'' ?r2 = Some (c, ?r3)"
    using nd by (intro number_after_show) simp
  have n3: "number_after ''Actualizados:'' ?r4 = Some (u, ?r5)"
    using nd by (intro number_after_show) simp
  have n4: "number_after ''Fallidos:'' ?r6 = Some (f, ?r7)"
    by (intro number_after_show) simp
  have b1: "bar ?r1 = Some ?r2" by (intro bar_sep) (simp_all add: py_isspace_def)
  have b2: "bar ?r3 = Some ?r4" by (intro bar_sep) (simp_all add: py_isspace_def)
  have b3: "bar ?r5 = Some ?r6" by (intro bar_sep) (simp_all add: py_isspace_def)
  show ?thesis
    unfolding m summary_at_def
    by (simp only: n1 n2 n3 n4 b1 b2 b3 option.case prod.case)
qed

lemma stats_rewrite_msg_line:
  "stats_rewrite keys pre post stats (msg_line t c u f) tail =
     (let soft = length (filter is_soft_line tail);
          skipped = length (filter is_skip_line tail);
          failed = f - soft;
          success = t - failed;
          created = (if keys = [] then 0 else min (count_created keys pre post) success)
      in (join_lines (stats_line t created (success - created) failed (stats + soft + skipped) # tail),
          stats + soft + skipped))"
proof -
  have sm: "search summary_at (msg_line t c u f) = Some (t, c, u, f)"
    by (rule search_head) (rule summary_at_msg_line)
  show ?thesis
    by (simp only: stats_rewrite_def Let_def sm option.case prod.case)
qed

lemma feed_keys_fold_distinct:
  "distinct ks \<Longrightarrow>
   distinct (foldl (\<lambda>keys it. case key_of cfg it of
                         None \<Rightarrow> keys
                       | Some k \<Rightarrow> if truthy (Some k) \<and> k \<notin> set keys then keys @ [k] else keys) ks items)"
  by (induction items arbitrary: ks) (auto split: option.splits)

lemma distinct_feed_keys: "distinct (feed_keys cfg items)"
  unfolding feed_keys_def by (rule feed_keys_fold_distinct) simp

lemma count_created_card:
  "distinct keys \<Longrightarrow> count_created keys pre post = card {k \<in> set keys. k \<notin> pre \<and> k \<in> post}"
proof -
  assume d: "distinct keys"
  have "{k \<in> set keys. k \<notin> pre \<and> k \<in> post} = {k. k \<notin> pre \<and> k \<in> post} \<inter> set keys" by auto
  then show ?thesis using d by (simp add: count_created_def distinct_length_filter)
qed

lemma splitlines_from_plain:
  "\<forall>c\<in>set m. \<not> is_linebreak c \<Longrightarrow> splitlines_from cur (m @ r) = splitlines_from (cur @ m) r"
proof (induction m arbitrary: cur)
  case Nil
  then show ?case by simp
next
  case (Cons c m)
  have nc: "\<not> is_linebreak c" using Cons.prems by simp
  have ncr: "c \<noteq> CHR 0x0D" using nc by (auto simp: is_linebreak_def)
  have IH: "splitlines_from (cur @ [c]) (m @ r) = splitlines_from ((cur @ [c]) @ m) r"
    using Cons.prems by (intro Cons.IH) simp
  show ?case
  proof (cases "m @ r")
    case Nil
    then show ?thesis using nc by simp
  next
    case (Cons d cs)
    have "splitlines_from cur (c # d # cs) = splitlines_from (cur @ [c]) (d # cs)"
      using nc ncr by simp
    then show ?thesis using IH Cons by simp
  qed
qed

lemma splitlines_first:
  assumes "\<forall>c\<in>set m. \<not> is_linebreak c" "m \<noteq> []" "y = [] \<or> hd y = CHR 0x0A"
  shows "\<exists>tail. splitlines (m @ y) = m # tail"
proof -
  have a: "splitlines (m @ y) = splitlines_from m y"
    unfolding splitlines_def using splitlines_from_plain[OF assms(1), of "[]" y] by simp
  have lb: "is_linebreak (CHR 0x0A)" by (simp add: is_linebreak_def)
  show ?thesis
  proof (cases y)
    case Nil
    then show ?thesis using a assms(2) by simp
  next
    case (Cons c y')
    then have c: "c = CHR 0x0A" using assms(3) by simp
    show ?thesis
    proof (cases y')
      case Nil
      then show ?thesis using a Cons c lb by simp
    next
      case (Cons d cs)
      then show ?thesis using a \<open>y = c # y'\<close> c lb by simp
    qed
  qed
qed

lemma rstrip_nl_prefix: "\<exists>w. z = rstrip_nl z @ w"
proof -
  have "rev z = takeWhile (\<lambda>c. c = CHR 0x0A) (rev z) @ dropWhile (\<lambda>c. c = CHR 0x0A) (rev z)" by simp
  then have "z = rev (dropWhile (\<lambda>c. c = CHR 0x0A) (rev z)) @ rev (takeWhile (\<lambda>c. c = CHR 0x0A) (rev z))"
    by (metis rev_append rev_rev_ident)
  then show ?thesis unfolding rstrip_nl_def by blast
qed

lemma rstrip_nl_append:
  assumes "m \<noteq> []" "last m \<noteq> CHR 0x0A"
  shows "rstrip_nl (m @ z) = m @ rstrip_nl z"
proof (cases "\<forall>c\<in>set z. c = CHR 0x0A")
  case True
  obtain x xs where r: "rev m = x # xs" using assms(1) by (cases "rev m") auto
  then have "x = last m" using assms(1) by (metis hd_rev list.sel(1))
  then have "dropWhile (\<lambda>c. c = CHR 0x0A) (x # xs) = x # xs" using assms(2) by simp
  then have d: "dropWhile (\<lambda>c. c = CHR 0x0A) (rev m) = rev m" by (simp only: r)
  have "dropWhile (\<lambda>c. c = CHR 0x0A) (rev z @ rev m) = dropWhile (\<lambda>c. c = CHR 0x0A) (rev m)"
    by (rule dropWhile_append2) (use True in auto)
  moreover have "dropWhile (\<lambda>c. c = CHR 0x0A) (rev z) = []" using True by simp
  ultimately show ?thesis using d by (simp add: rstrip_nl_def)
next
  case False
  then obtain c where c: "c \<in> set (rev z)" "\<not> c = CHR 0x0A" by auto
  have "dropWhile (\<lambda>c. c = CHR 0x0A) (rev z @ rev m) = dropWhile (\<lambda>c. c = CHR 0x0A) (rev z) @ rev m"
    using c by (rule dropWhile_append1)
  then show ?thesis by (simp add: rstrip_nl_def)
qed


lemma msg_line_plain: "\<forall>x\<in>set (msg_line t c u f). \<not> is_linebreak x"
proof -
  have d: "\<And>n. \<forall>c\<in>set (show_nat n). \<not> is_linebreak c"
    using show_nat_digits digit_not_linebreak by blast
  have l1: "\<forall>c\<in>set ''Total: ''. \<not> is_linebreak c" by (simp add: is_linebreak_def)
  have l2: "\<forall>c\<in>set '' | Creados: ''. \<not> is_linebreak c" by (simp add: is_linebreak_def)
  have l3: "\<forall>c\<in>set '' | Actualizados: ''. \<not> is_linebreak c" by (simp add: is_linebreak_def)
  have l4: "\<forall>c\<in>set '' | Fallidos: ''. \<not> is_linebreak c" by (simp add: is_linebreak_def)
  show ?thesis
    unfolding msg_line_def set_append ball_Un
    using d l1 l2 l3 l4 by blast
qed

lemma msg_line_nonempty: "msg_line t c u f \<noteq> []"
  by (simp add: msg_line_def)

lemma msg_line_last: "last (msg_line t c u f) \<noteq> CHR 0x0A"
proof -
  have "last (msg_line t c u f) = last (show_nat f)"
    using show_nat_nonempty by (simp add: msg_line_def)
  moreover have "last (show_nat f) \<in> set (show_nat f)" using show_nat_nonempty by simp
  ultimately have "is_digit (last (msg_line t c u f))" using show_nat_digits by metis
  then have "\<not> is_linebreak (last (msg_line t c u f))" by (rule digit_not_linebreak)
  then show ?thesis by (auto simp: is_linebreak_def)
qed

lemma result_text_shape: "\<exists>y. result_text m ds = m @ y \<and> (y = [] \<or> hd y = CHR 0x0A)"
proof (cases ds)
  case Nil
  then show ?thesis by (simp add: result_text_def)
next
  case (Cons d ds')
  then have "result_text m ds = m @ [CHR 0x0A] @ join_lines (take 200 ds)"
    by (simp add: result_text_def)
  then show ?thesis by (metis append_Cons list.sel(1))
qed

lemma rstrip_nl_head:
  assumes "y = [] \<or> hd y = CHR 0x0A"
  shows "rstrip_nl y = [] \<or> hd (rstrip_nl y) = CHR 0x0A"
proof (cases "rstrip_nl y")
  case Nil
  then show ?thesis by simp
next
  case (Cons a as)
  obtain w where "y = rstrip_nl y @ w" using rstrip_nl_prefix by blast
  then have "y = a # as @ w" using Cons by simp
  then have "hd y = a" "y \<noteq> []" by simp_all
  then show ?thesis using assms Cons by simp
qed

lemma base_lines:
  "\<exists>tail. splitlines (rstrip_nl (result_text (msg_line t c u f) ds)) = msg_line t c u f # tail"
proof -
  obtain y where y: "result_text (msg_line t c u f) ds = msg_line t c u f @ y"
      "y = [] \<or> hd y = CHR 0x0A"
    using result_text_shape by blast
  have "rstrip_nl (msg_line t c u f @ y) = msg_line t c u f @ rstrip_nl y"
    by (rule rstrip_nl_append) (rule msg_line_nonempty, rule msg_line_last)
  moreover have "\<exists>tail. splitlines (msg_line t c u f @ rstrip_nl y) = msg_line t c u f # tail"
    by (rule splitlines_first) (rule msg_line_plain, rule msg_line_nonempty, rule rstrip_nl_head, rule y(2))
  ultimately show ?thesis using y(1) by simp
qed

lemma created_card:
  "(if feed_keys cfg feed = [] then 0 else min (count_created (feed_keys cfg feed) pre post) n)
     = min (card {k \<in> set (feed_keys cfg feed). k \<notin> pre \<and> k \<in> post}) n"
  using count_created_card[OF distinct_feed_keys, of cfg feed pre post] by auto

text \<open>
  C1 (amended). For every run, the overlay returns the store of the base run, writes
  \<open>last_no_extra_images\<close>, and rewrites the first line of the text with these counts, where
  \<open>tail\<close> are the lines of the base text after the first: \<open>failed\<close> is the failed count of
  the base run less the number of lines of \<open>tail\<close> that report an image that could not be
  read (not below zero); the successes are the total less \<open>failed\<close>; \<open>created\<close> is the number
  of keys of the feed that the snapshot before the run does not hold and the snapshot after
  the run holds, capped at the successes; \<open>updated\<close> is the successes less \<open>created\<close>; and
  \<open>no_extra\<close> is the counter of the context plus the unreadable-image lines plus the
  gallery-skip lines, which are not taken from \<open>failed\<close>. In the scenario where the catalogue
  knows the key \<open>A\<close>, the feed has \<open>A\<close>, \<open>B\<close> and \<open>C\<close> and \<open>B\<close> fails validation, the
  rewritten line states 1 created, 1 updated and 1 failed.
\<close>

theorem stats_reconciliation:
  "stats_action_run_import e cfg st feed items stats =
     (let r = base_action_run_import e cfg st items;
          tail = tl (splitlines (rstrip_nl (snd r)));
          keys = feed_keys cfg feed;
          soft = length (filter is_soft_line tail);
          skipped = length (filter is_skip_line tail);
          failed = n_skipped (snd (import_loop e cfg st items)) - soft;
          success = length items - failed;
          created = min (card {k \<in> set keys. k \<notin> snapshot cfg st keys \<and> k \<in> snapshot cfg (fst r) keys}) success;
          updated = success - created;
          no_extra = stats + soft + skipped
      in (fst r, join_lines (stats_line (length items) created updated failed no_extra # tail),
          Some no_extra))
   \<and> set (feed_keys cfg0 feed_abc) = {Str ''A'', Str ''B'', Str ''C''}
   \<and> snapshot cfg0 store_a (feed_keys cfg0 feed_abc) = {Str ''A''}
   \<and> map snd (outcomes env0 cfg0 store_a feed_abc) =
        [Inr (1, False), Inl (UserError ''Falta 'name' en el item''), Inr (2, True)]
   \<and> snd (stats_action_run_import env0 cfg0 store_a feed_abc feed_abc 0) =
        (''Total: 3 | Creados: 1 | Actualizados: 1 | Fallidos: 1 | Sin imagen extra: 0''
           @ [CHR 0x0A] @ ''ERROR B: Falta 'name' en el item'',
         Some 0)"
proof (intro conjI)
  show "set (feed_keys cfg0 feed_abc) = {Str ''A'', Str ''B'', Str ''C''}" by code_simp
  show "snapshot cfg0 store_a (feed_keys cfg0 feed_abc) = {Str ''A''}" by code_simp
  show "map snd (outcomes env0 cfg0 store_a feed_abc) =
        [Inr (1, False), Inl (UserError ''Falta 'name' en el item''), Inr (2, True)]" by code_simp
  show "snd (stats_action_run_import env0 cfg0 store_a feed_abc feed_abc 0) =
        (''Total: 3 | Creados: 1 | Actualizados: 1 | Fallidos: 1 | Sin imagen extra: 0''
           @ [CHR 0x0A] @ ''ERROR B: Falta 'name' en el item'',
         Some 0)" by code_simp
  show "stats_action_run_import e cfg st feed items stats =
     (let r = base_action_run_import e cfg st items;
          tail = tl (splitlines (rstrip_nl (snd r)));
          keys = feed_keys cfg feed;
          soft = length (filter is_soft_line tail);
          skipped = length (filter is_skip_line tail);
          failed = n_skipped (snd (import_loop e cfg st items)) - soft;
          success = length items - failed;
          created = min (card {k \<in> set keys. k \<notin> snapshot cfg st keys \<and> k \<in> snapshot cfg (fst r) keys}) success;
          updated = success - created;
          no_extra = stats + soft + skipped
      in (fst r, join_lines (stats_line (length items) created updated failed no_extra # tail),
          Some no_extra))"
  proof -
    define c where "c = snd (import_loop e cfg st items)"
    define m where "m = msg_line (length items) (n_created c) (n_updated c) (n_skipped c)"
    define r where "r = base_action_run_import e cfg st items"
    have sr: "snd r = result_text m (details c)"
      by (simp add: r_def base_action_run_import_def Let_def c_def m_def)
    obtain tail where t: "splitlines (rstrip_nl (snd r)) = m # tail"
      unfolding sr m_def using base_lines by blast
    have w: "stats_rewrite keys pre post stats m tail =
       (let soft = length (filter is_soft_line tail);
            skipped = length (filter is_skip_line tail);
            failed = n_skipped c - soft;
            success = length items - failed;
            created = (if keys = [] then 0 else min (count_created keys pre post) success)
        in (join_lines (stats_line (length items) created (success - created) failed (stats + soft + skipped) # tail),
            stats + soft + skipped))" for keys pre post
      unfolding m_def by (rule stats_rewrite_msg_line)
    have L: "stats_action_run_import e cfg st feed items stats =
        (fst r, fst (stats_rewrite (feed_keys cfg feed) (snapshot cfg st (feed_keys cfg feed))
                       (snapshot cfg (fst r) (feed_keys cfg feed)) stats m tail),
         Some (snd (stats_rewrite (feed_keys cfg feed) (snapshot cfg st (feed_keys cfg feed))
                       (snapshot cfg (fst r) (feed_keys cfg feed)) stats m tail)))"
      unfolding stats_action_run_import_def Let_def r_def[symmetric] t by simp
    show ?thesis
      unfolding L w Let_def r_def[symmetric] t c_def[symmetric] created_card
      by simp
  qed
qed

text \<open>
  The claim as it was stated takes the gallery-skip lines from \<open>failed\<close> too: an item without
  a name whose key reads as a gallery-skip event fails, its detail line is counted as a
  gallery skip, and the rewritten line still states 1 failed, where the claim gives 0.
\<close>

theorem stats_gallery_skip_counterexample:
  "(let r = stats_action_run_import env0 cfg0 empty_store skip_feed skip_feed 0;
        tail = tl (splitlines (rstrip_nl (snd (base_action_run_import env0 cfg0 empty_store skip_feed))))
    in length tail = 1 \<and> filter is_skip_line tail = tail \<and> filter is_soft_line tail = []
       \<and> fst (snd r) = ''Total: 1 | Creados: 0 | Actualizados: 0 | Fallidos: 1 | Sin imagen extra: 1''
            @ [CHR 0x0A] @ ''ERROR Galer'' @ [CHR 0xED] @ ''a saltada X1: Falta 'name' en el item''
       \<and> claimed_failed 1 tail = 0)"
  by code_simp

section \<open>The descriptions after an upsert\<close>

text \<open>
  What the description overlay writes: on the record it resolves and on each of its
  variants, \<open>website_description\<close> holds the web payload or the markup of the generic
  description, and the fields \<open>description\<close>, \<open>description_sale\<close> and
  \<open>website_short_description\<close> are empty, each where the schema has the field.
\<close>

lemma brand_notes_overlay_clears:
  assumes "brand_notes_overlay e cfg item st = Inr st'"
    and "item_sku item = Inr sku" and "item_barcode item = Inr bc"
    and "find_template cfg st sku bc = Some tid"
  shows "\<forall>t\<in>set (templates st'). t_id t = tid \<longrightarrow>
           (''website_description'' \<in> pt_fields e \<longrightarrow> website_description t = or_false (web_html (e_lib e) item))
         \<and> (''description'' \<in> pt_fields e \<longrightarrow> description t = None)
         \<and> (''description_sale'' \<in> pt_fields e \<longrightarrow> description_sale t = None)
         \<and> (''website_short_description'' \<in> pt_fields e \<longrightarrow> website_short_description t = None)"
    and "\<forall>p\<in>set (variants st'). pv_tmpl p = tid \<longrightarrow>
           (''website_description'' \<in> pp_fields e \<longrightarrow> pv_website_description p = or_false (web_html (e_lib e) item))
         \<and> (''description'' \<in> pp_fields e \<longrightarrow> pv_description p = None)
         \<and> (''description_sale'' \<in> pp_fields e \<longrightarrow> pv_description_sale p = None)
         \<and> (''website_short_description'' \<in> pp_fields e \<longrightarrow> pv_website_short_description p = None)"
proof -
  have s: "st' = st\<lparr> templates :=
                        map (\<lambda>t. if t_id t = tid then brand_write_template e (web_html (e_lib e) item) t else t) (templates st),
                      variants :=
                        map (\<lambda>p. if pv_tmpl p = tid then brand_write_variant e (web_html (e_lib e) item) p else p) (variants st) \<rparr>"
    using assms by (simp add: brand_notes_overlay_def Let_def)
  show "\<forall>t\<in>set (templates st'). t_id t = tid \<longrightarrow>
           (''website_description'' \<in> pt_fields e \<longrightarrow> website_description t = or_false (web_html (e_lib e) item))
         \<and> (''description'' \<in> pt_fields e \<longrightarrow> description t = None)
         \<and> (''description_sale'' \<in> pt_fields e \<longrightarrow> description_sale t = None)
         \<and> (''website_short_description'' \<in> pt_fields e \<longrightarrow> website_short_description t = None)"
    proof (intro ballI impI)
    fix t assume t: "t \<in> set (templates st')" and i: "t_id t = tid"
    obtain u where u: "u \<in> set (templates st)"
        "t = (if t_id u = tid then brand_write_template e (web_html (e_lib e) item) u else u)"
      using t unfolding s by auto
    have id: "t_id (brand_write_template e w u) = t_id u" for w
      by (simp add: brand_write_template_def)
    have "t_id u = tid" using u(2) i by (simp add: id split: if_splits)
    then have tt: "t = brand_write_template e (web_html (e_lib e) item) u" using u(2) by simp
    show "(''website_description'' \<in> pt_fields e \<longrightarrow> website_description t = or_false (web_html (e_lib e) item))
         \<and> (''description'' \<in> pt_fields e \<longrightarrow> description t = None)
         \<and> (''description_sale'' \<in> pt_fields e \<longrightarrow> description_sale t = None)
         \<and> (''website_short_description'' \<in> pt_fields e \<longrightarrow> website_short_description t = None)"
      unfolding tt brand_write_template_def by simp
  qed
  show "\<forall>p\<in>set (variants st'). pv_tmpl p = tid \<longrightarrow>
           (''website_description'' \<in> pp_fields e \<longrightarrow> pv_website_description p = or_false (web_html (e_lib e) item))
         \<and> (''description'' \<in> pp_fields e \<longrightarrow> pv_description p = None)
         \<and> (''description_sale'' \<in> pp_fields e \<longrightarrow> pv_description_sale p = None)
         \<and> (''website_short_description'' \<in> pp_fields e \<longrightarrow> pv_website_short_description p = None)"
    proof (intro ballI impI)
    fix p assume p: "p \<in> set (variants st')" and i: "pv_tmpl p = tid"
    obtain u where u: "u \<in> set (variants st)"
        "p = (if pv_tmpl u = tid then brand_write_variant e (web_html (e_lib e) item) u else u)"
      using p unfolding s by auto
    have id: "pv_tmpl (brand_write_variant e w u) = pv_tmpl u" for w
      by (simp add: brand_write_variant_def)
    have "pv_tmpl u = tid" using u(2) i by (simp add: id split: if_splits)
    then have tt: "p = brand_write_variant e (web_html (e_lib e) item) u" using u(2) by simp
    show "(''website_description'' \<in> pp_fields e \<longrightarrow> pv_website_description p = or_false (web_html (e_lib e) item))
         \<and> (''description'' \<in> pp_fields e \<longrightarrow> pv_description p = None)
         \<and> (''description_sale'' \<in> pp_fields e \<longrightarrow> pv_description_sale p = None)
         \<and> (''website_short_description'' \<in> pp_fields e \<longrightarrow> pv_website_short_description p = None)"
      unfolding tt brand_write_variant_def by simp
  qed
qed

text \<open>
  C3. The description overlay is written to leave \<open>website_description\<close> as the only
  description and to delete all the others; the base method writes the same payload to
  \<open>description_ecommerce\<close>, which the overlay does not clear. With a schema that has both
  fields, the upsert of \<open>web_item\<close> into the empty store creates record 1 with both
  \<open>description_ecommerce\<close> and \<open>website_description\<close> populated; the three fields that the
  overlay names are empty on the record and on its variant.
\<close>

theorem description_two_fields_populated:
  "''description_ecommerce'' \<in> pt_fields env0 \<and> ''website_description'' \<in> pt_fields env0
   \<and> snd (upsert_product env0 cfg0 empty_store web_item) = Inr (1, True)
   \<and> map (\<lambda>t. (t_id t, description_ecommerce t, website_description t))
        (templates (fst (upsert_product env0 cfg0 empty_store web_item)))
      = [(1, Some (Str ''<p>W</p>''), Some (Str ''<p>W</p>''))]
   \<and> map (\<lambda>t. (description t, description_sale t, website_short_description t))
        (templates (fst (upsert_product env0 cfg0 empty_store web_item)))
      = [(None, None, None)]
   \<and> map (\<lambda>p. (pv_tmpl p, pv_website_description p, pv_description p, pv_description_sale p,
                 pv_website_short_description p))
        (variants (fst (upsert_product env0 cfg0 empty_store web_item)))
      = [(1, Some (Str ''<p>W</p>''), None, None, None)]"
  by code_simp

section \<open>Properties of the upsert run twice\<close>














lemma v_default_code_base_vals [simp]:
  "v_default_code (base_vals e st item name sku bc tmpl) = (if sku \<noteq> [] then Some sku else None)"
  by (simp add: base_vals_def Let_def)










































end
